theory Spec2Isabelle
  imports Complex_Main "HOL-Library.Log_Nat"
begin

section \<open>JavaScript numbers\<close>

text \<open>
  Every \<^verbatim>\<open>number\<close> of the program is an IEEE-754 binary64 value. A finite one is
  carried as the rational it denotes; the two zeros are identified (the program never
  divides by a computed value and never inspects the sign of a zero, so the sign of a
  zero is not observable in it).
\<close>

datatype number = NaN | PosInf | NegInf | Num rat

text \<open>The binade of a positive rational: the \<open>e\<close> with \<open>2^e \<le> x < 2^(e+1)\<close>.\<close>

definition binade :: "rat \<Rightarrow> int" where
  "binade x =
     (let (p, q) = quotient_of x; e0 = bitlen p - bitlen q
      in if power_int 2 e0 \<le> x then e0 else e0 - 1)"

text \<open>
  The spacing of the binary64 grid around \<open>x\<close>: 53 significant bits, and the fixed
  spacing \<open>2^-1074\<close> of the subnormal range below \<open>2^-1022\<close>.
\<close>

definition grid_exp :: "rat \<Rightarrow> int" where
  "grid_exp x = max (binade \<bar>x\<bar>) (- 1022) - 52"

definition quantum :: "rat \<Rightarrow> rat" where
  "quantum x = power_int 2 (grid_exp x)"

text \<open>Rounding a rational to the nearest integer, ties to the even one.\<close>

definition rne :: "rat \<Rightarrow> int" where
  "rne t =
     (let f = \<lfloor>t\<rfloor>; d = t - of_int f
      in if d < 1 / 2 then f
         else if 1 / 2 < d then f + 1
         else if even f then f else f + 1)"

text \<open>
  An exact result on the binary64 grid: round-to-nearest, ties-to-even, with the exponent
  range unbounded above.
\<close>

definition r64 :: "rat \<Rightarrow> rat" where
  "r64 x = of_int (rne (x / quantum x)) * quantum x"

text \<open>
  Rounding of an exact result to binary64, as every arithmetic operation of JavaScript
  does: a result of magnitude \<open>2^1024\<close> or more after rounding is an infinity.
\<close>

definition round64 :: "rat \<Rightarrow> number" where
  "round64 x =
     (let r = r64 x
      in if 2 ^ 1024 \<le> \<bar>r\<bar> then (if 0 < x then PosInf else NegInf) else Num r)"

text \<open>The finite binary64 values: those that rounding leaves alone.\<close>

definition is_double :: "rat \<Rightarrow> bool" where
  "is_double x \<longleftrightarrow> round64 x = Num x"

text \<open>\<^verbatim>\<open>a / b\<close>\<close>

fun js_div :: "number \<Rightarrow> number \<Rightarrow> number" where
  "js_div (Num a) (Num b) =
     (if b = 0 then (if a = 0 then NaN else if 0 < a then PosInf else NegInf)
      else round64 (a / b))"
| "js_div (Num a) PosInf = Num 0"
| "js_div (Num a) NegInf = Num 0"
| "js_div PosInf (Num b) = (if 0 \<le> b then PosInf else NegInf)"
| "js_div NegInf (Num b) = (if 0 \<le> b then NegInf else PosInf)"
| "js_div _ _ = NaN"

text \<open>\<^verbatim>\<open>a * b\<close>\<close>

fun js_mul :: "number \<Rightarrow> number \<Rightarrow> number" where
  "js_mul (Num a) (Num b) = round64 (a * b)"
| "js_mul (Num a) PosInf = (if a = 0 then NaN else if 0 < a then PosInf else NegInf)"
| "js_mul (Num a) NegInf = (if a = 0 then NaN else if 0 < a then NegInf else PosInf)"
| "js_mul PosInf (Num b) = (if b = 0 then NaN else if 0 < b then PosInf else NegInf)"
| "js_mul NegInf (Num b) = (if b = 0 then NaN else if 0 < b then NegInf else PosInf)"
| "js_mul PosInf PosInf = PosInf"
| "js_mul NegInf NegInf = PosInf"
| "js_mul PosInf NegInf = NegInf"
| "js_mul NegInf PosInf = NegInf"
| "js_mul _ _ = NaN"

text \<open>\<^verbatim>\<open>a + b\<close> on two numbers\<close>

fun js_add :: "number \<Rightarrow> number \<Rightarrow> number" where
  "js_add (Num a) (Num b) = round64 (a + b)"
| "js_add NaN _ = NaN"
| "js_add _ NaN = NaN"
| "js_add PosInf NegInf = NaN"
| "js_add NegInf PosInf = NaN"
| "js_add PosInf _ = PosInf"
| "js_add _ PosInf = PosInf"
| "js_add NegInf _ = NegInf"
| "js_add _ NegInf = NegInf"

text \<open>\<^verbatim>\<open>Math.floor\<close>: the floor of a binary64 value is one again, so nothing is rounded.\<close>

fun Math_floor :: "number \<Rightarrow> number" where
  "Math_floor (Num a) = Num (of_int \<lfloor>a\<rfloor>)"
| "Math_floor x = x"

text \<open>\<^verbatim>\<open>Number.isFinite\<close>\<close>

fun isFinite :: "number \<Rightarrow> bool" where
  "isFinite (Num a) = True"
| "isFinite _ = False"

text \<open>\<^verbatim>\<open>a <= b\<close>, \<^verbatim>\<open>a >= b\<close> and \<^verbatim>\<open>a === b\<close>: false as soon as one side is NaN.\<close>

fun js_le :: "number \<Rightarrow> number \<Rightarrow> bool" where
  "js_le NaN _ = False"
| "js_le _ NaN = False"
| "js_le NegInf _ = True"
| "js_le _ PosInf = True"
| "js_le (Num a) (Num b) = (a \<le> b)"
| "js_le _ _ = False"

definition js_ge :: "number \<Rightarrow> number \<Rightarrow> bool" where
  "js_ge a b = js_le b a"

definition strict_eq :: "number \<Rightarrow> number \<Rightarrow> bool" where
  "strict_eq a b \<longleftrightarrow> a \<noteq> NaN \<and> a = b"

text \<open>A numeric literal of the source denotes the binary64 value nearest to it.\<close>

definition lit :: "rat \<Rightarrow> number" where
  "lit x = round64 x"

section \<open>The customer store\<close>

text \<open>\<^verbatim>\<open>Customer["status"]\<close>, in the order of the declaration.\<close>

datatype status = PLATINUM | GOLD | SILVER | BRONZE

text \<open>The interface \<^verbatim>\<open>Customer\<close>; its field \<^verbatim>\<open>id\<close> is \<open>cid\<close> here.\<close>

record customer =
  cid :: number
  name :: string
  status :: status
  points :: number
  lastPurchaseDate :: string
  email :: "string option"
  preferredStore :: "string option"
  joinDate :: string
  notifications :: bool
  lastStatusChange :: "string option"

text \<open>The array \<^verbatim>\<open>customers\<close> as the module creates it.\<close>

definition customers :: "customer list" where
  "customers =
     [\<lparr>cid = lit 1, name = ''John Smith'', status = SILVER, points = lit 450,
       lastPurchaseDate = ''2024-02-15'', email = None, preferredStore = Some ''Downtown'',
       joinDate = ''2023-06-15'', notifications = True, lastStatusChange = None\<rparr>,
      \<lparr>cid = lit 2, name = ''Jane Doe'', status = GOLD, points = lit 850,
       lastPurchaseDate = ''2024-03-01'', email = Some ''jane.doe@email.com'',
       preferredStore = None, joinDate = ''2023-01-20'', notifications = False,
       lastStatusChange = None\<rparr>]"

section \<open>Points\<close>

definition BASE_POINT_DIVISOR :: number where
  "BASE_POINT_DIVISOR = lit 10"

text \<open>
  The string a status is at run time (TypeScript's types are erased); it is the key under
  which \<^verbatim>\<open>STATUS_MULTIPLIER\<close> is read.
\<close>

fun status_key :: "status \<Rightarrow> string" where
  "status_key PLATINUM = ''PLATINUM''"
| "status_key GOLD = ''GOLD''"
| "status_key SILVER = ''SILVER''"
| "status_key BRONZE = ''BRONZE''"

text \<open>
  What reading a property of an object literal can give here: nothing, a number of the
  literal, or a member the literal inherits from \<^verbatim>\<open>Object.prototype\<close> (functions, and
  for \<^verbatim>\<open>__proto__\<close> the prototype object itself).
\<close>

datatype js_value = Undefined | Number number | Inherited

text \<open>The own properties of the object literal \<^verbatim>\<open>STATUS_MULTIPLIER\<close>.\<close>

definition STATUS_MULTIPLIER :: "(string \<times> number) list" where
  "STATUS_MULTIPLIER =
     [(''BRONZE'', lit 1), (''SILVER'', lit 1), (''GOLD'', lit (12 / 10)), (''PLATINUM'', lit 2)]"

text \<open>The property names of \<^verbatim>\<open>Object.prototype\<close>, which every object literal inherits.\<close>

definition Object_prototype :: "string list" where
  "Object_prototype =
     [''constructor'', ''hasOwnProperty'', ''isPrototypeOf'', ''propertyIsEnumerable'',
      ''toLocaleString'', ''toString'', ''valueOf'', ''__proto__'', ''__defineGetter__'',
      ''__defineSetter__'', ''__lookupGetter__'', ''__lookupSetter__'']"

text \<open>\<^verbatim>\<open>obj[key]\<close> on an object literal: the own property, else the inherited one.\<close>

definition get_property :: "(string \<times> number) list \<Rightarrow> string \<Rightarrow> js_value" where
  "get_property obj k =
     (case map_of obj k of
        Some v \<Rightarrow> Number v
      | None \<Rightarrow> if k \<in> set Object_prototype then Inherited else Undefined)"

text \<open>\<^verbatim>\<open>v ?? d\<close>\<close>

fun nullish :: "js_value \<Rightarrow> js_value \<Rightarrow> js_value" where
  "nullish Undefined d = d"
| "nullish v d = v"

text \<open>
  The conversion \<^verbatim>\<open>*\<close> applies to its operand: the members of \<^verbatim>\<open>Object.prototype\<close>
  are functions and one plain object, whose string forms are not numerals.
\<close>

fun ToNumber :: "js_value \<Rightarrow> number" where
  "ToNumber (Number n) = n"
| "ToNumber Undefined = NaN"
| "ToNumber Inherited = NaN"

text \<open>\<^verbatim>\<open>calcPointsWithStatus\<close>; its parameter \<^verbatim>\<open>status\<close> is \<open>st\<close> here.\<close>

definition calcPointsWithStatus :: "string \<Rightarrow> number \<Rightarrow> number" where
  "calcPointsWithStatus st amount =
     (let base = Math_floor (js_div amount BASE_POINT_DIVISOR);
          mult = nullish (get_property STATUS_MULTIPLIER st) (Number (lit 1))
      in Math_floor (js_mul base (ToNumber mult)))"

text \<open>The binary64 values of the literals of \<^verbatim>\<open>STATUS_MULTIPLIER\<close>, as rationals.\<close>

fun multiplier64 :: "status \<Rightarrow> rat" where
  "multiplier64 BRONZE = 1"
| "multiplier64 SILVER = 1"
| "multiplier64 GOLD = 5404319552844595 / 4503599627370496"
| "multiplier64 PLATINUM = 2"

section \<open>Status upgrades\<close>

text \<open>
  \<^verbatim>\<open>applyStatusUpgrade\<close> mutates the customer it is given and reads the clock
  (\<^verbatim>\<open>new Date().toISOString()\<close>) in the branch it takes: the model returns the customer
  after the call and takes the reading of the clock, \<open>now\<close>, as an argument.
\<close>

definition applyStatusUpgrade :: "string \<Rightarrow> customer \<Rightarrow> customer" where
  "applyStatusUpgrade now c =
     (if js_ge (points c) (lit 1000) \<and> status c \<noteq> PLATINUM
        then c\<lparr>status := PLATINUM, lastStatusChange := Some now\<rparr>
      else if js_ge (points c) (lit 750) \<and> (status c = SILVER \<or> status c = BRONZE)
        then c\<lparr>status := GOLD, lastStatusChange := Some now\<rparr>
      else if js_ge (points c) (lit 500) \<and> status c = BRONZE
        then c\<lparr>status := SILVER, lastStatusChange := Some now\<rparr>
      else c)"

section \<open>The purchase route\<close>

text \<open>
  \<^verbatim>\<open>customers.find(p)\<close> gives a reference to the first element that satisfies \<open>p\<close>;
  the route then mutates that element of the array. The reference is the index.
\<close>

fun findRef :: "('a \<Rightarrow> bool) \<Rightarrow> 'a list \<Rightarrow> nat option" where
  "findRef p [] = None"
| "findRef p (x # xs) = (if p x then Some 0 else map_option Suc (findRef p xs))"

text \<open>What the route sends: a status code with a text, or the JSON body of a success.\<close>

datatype response =
  Send nat string
| Json customer number js_value

text \<open>
  \<^verbatim>\<open>POST /api/customers/:id/purchase\<close> on the store \<open>cs\<close>. Its inputs are the number
  \<^verbatim>\<open>parseInt(req.params.id)\<close>, the number \<^verbatim>\<open>Number(req.body?.amount)\<close>, and the two
  readings of the clock it may make, for \<^verbatim>\<open>lastPurchaseDate\<close> and inside
  \<^verbatim>\<open>applyStatusUpgrade\<close>. It gives the response and the store after the request.
\<close>

definition purchase ::
  "customer list \<Rightarrow> number \<Rightarrow> number \<Rightarrow> string \<Rightarrow> string \<Rightarrow> response \<times> customer list" where
  "purchase cs customerId amount now1 now2 =
     (case findRef (\<lambda>c. strict_eq (cid c) customerId) cs of
        None \<Rightarrow> (Send 404 ''Customer not found'', cs)
      | Some i \<Rightarrow>
          if \<not> isFinite amount \<or> js_le amount (lit 0)
          then (Send 400 ''Invalid 'amount' provided. Must be a positive number.'', cs)
          else
            let customer = cs ! i;
                awardedPoints = calcPointsWithStatus (status_key (status customer)) amount;
                customer = customer\<lparr>points := js_add (points customer) awardedPoints\<rparr>;
                customer = customer\<lparr>lastPurchaseDate := now1\<rparr>;
                customer = applyStatusUpgrade now2 customer
            in (Json customer awardedPoints
                  (get_property STATUS_MULTIPLIER (status_key (status customer))),
                cs[i := customer]))"

section \<open>The contracts of the specification\<close>

text \<open>
  The Points Calculator as the specification words it, in exact arithmetic: the floor of
  a tenth of the amount, times the multiplier of the tier, floored again.
\<close>

fun multiplier :: "status \<Rightarrow> rat" where
  "multiplier BRONZE = 1"
| "multiplier SILVER = 1"
| "multiplier GOLD = 12 / 10"
| "multiplier PLATINUM = 2"

definition calculatePoints :: "status \<Rightarrow> rat \<Rightarrow> int" where
  "calculatePoints tier amount = \<lfloor>of_int \<lfloor>amount / 10\<rfloor> * multiplier tier\<rfloor>"

text \<open>
  The Tier Promotion Evaluator as the specification words it: the ordered rules, the
  first that matches wins; the result is the new tier and whether it changed.
\<close>

definition evaluatePromotion :: "status \<Rightarrow> rat \<Rightarrow> status \<times> bool" where
  "evaluatePromotion currentTier cumulativePoints =
     (if 1000 \<le> cumulativePoints \<and> currentTier \<noteq> PLATINUM then (PLATINUM, True)
      else if 750 \<le> cumulativePoints \<and> currentTier \<in> {SILVER, BRONZE} then (GOLD, True)
      else if 500 \<le> cumulativePoints \<and> currentTier = BRONZE then (SILVER, True)
      else (currentTier, False))"

text \<open>The order of the tiers by privilege: BRONZE, SILVER, GOLD, PLATINUM.\<close>

fun privilege :: "status \<Rightarrow> nat" where
  "privilege BRONZE = 0"
| "privilege SILVER = 1"
| "privilege GOLD = 2"
| "privilege PLATINUM = 3"

text \<open>The amounts the specification rejects: the non-finite, zero and negative ones.\<close>

fun invalidAmount :: "number \<Rightarrow> bool" where
  "invalidAmount (Num a) = (a \<le> 0)"
| "invalidAmount _ = True"

section \<open>Facts about binary64 rounding\<close>

subsection \<open>The binade of a positive rational\<close>

lemma powi_bitlen_bounds:
  fixes p :: int
  assumes "0 < p"
  shows "power_int (2::rat) (bitlen p - 1) \<le> of_int p" "of_int p < power_int (2::rat) (bitlen p)"
proof -
  from assms have b1: "1 \<le> bitlen p" by (auto simp: bitlen_alt_def)
  have bb: "2 ^ nat (bitlen p - 1) \<le> p" "p < 2 ^ nat (bitlen p)"
    using bitlen_bounds[OF assms] by auto
  have "(of_int (2 ^ nat (bitlen p - 1)) :: rat) \<le> of_int p"
    using bb(1) of_int_le_iff by blast
  then show "power_int (2::rat) (bitlen p - 1) \<le> of_int p"
    using b1 by (simp add: power_int_def)
  have "(of_int p :: rat) < of_int (2 ^ nat (bitlen p))"
    using bb(2) of_int_less_iff by blast
  then show "of_int p < power_int (2::rat) (bitlen p)"
    using b1 by (simp add: power_int_def)
qed

lemma binade_bounds:
  assumes "0 < x"
  shows "power_int 2 (binade x) \<le> x" "x < power_int 2 (binade x + 1)"
proof -
  obtain p q where pq: "quotient_of x = (p, q)" by (cases "quotient_of x")
  have q0: "0 < q" using quotient_of_denom_pos[OF pq] .
  have x: "x = of_int p / of_int q" using quotient_of_div[OF pq] .
  have p0: "0 < p" using assms q0 x by (simp add: zero_less_divide_iff)
  let ?e = "bitlen p - bitlen q"
  have up: "x < power_int 2 (?e + 1)"
  proof -
    have "x < power_int 2 (bitlen p) / of_int q"
      unfolding x using powi_bitlen_bounds(2)[OF p0] q0 by (simp add: divide_strict_right_mono)
    also have "\<dots> \<le> power_int 2 (bitlen p) / power_int 2 (bitlen q - 1)"
      using powi_bitlen_bounds(1)[OF q0] by (intro divide_left_mono) (auto intro!: mult_pos_pos simp: q0)
    also have "\<dots> = power_int 2 (?e + 1)"
      by (simp add: power_int_diff power_int_add)
    finally show ?thesis .
  qed
  have lo: "power_int 2 (?e - 1) \<le> x"
  proof -
    have "power_int (2::rat) (?e - 1) = power_int 2 (bitlen p - 1) / power_int 2 (bitlen q)"
      by (simp add: power_int_diff)
    also have "\<dots> \<le> power_int 2 (bitlen p - 1) / of_int q"
      using powi_bitlen_bounds(2)[OF q0] q0 by (intro divide_left_mono) (auto intro!: mult_pos_pos)
    also have "\<dots> \<le> x"
      unfolding x using powi_bitlen_bounds(1)[OF p0] q0 by (simp add: divide_right_mono)
    finally show ?thesis .
  qed
  show "power_int 2 (binade x) \<le> x"
    using lo by (simp add: binade_def pq Let_def)
  show "x < power_int 2 (binade x + 1)"
    using up by (auto simp add: binade_def pq Let_def not_le)
qed

lemma powi2_mono: "a \<le> b \<Longrightarrow> power_int (2::rat) a \<le> power_int 2 b"
  by (rule power_int_increasing) auto

lemma powi2_less_imp: "power_int (2::rat) a < power_int 2 b \<Longrightarrow> a < b"
  using powi2_mono[of b a] by (auto simp: not_le[symmetric])

lemma binade_unique:
  assumes "power_int 2 e \<le> x" "x < power_int 2 (e + 1)"
  shows "binade x = e"
proof -
  have x0: "0 < x" by (rule less_le_trans[OF _ assms(1)]) simp
  note b = binade_bounds[OF x0]
  have "power_int (2::rat) e < power_int 2 (binade x + 1)" using assms(1) b(2) by simp
  then have 1: "e < binade x + 1" by (rule powi2_less_imp)
  have "power_int (2::rat) (binade x) < power_int 2 (e + 1)" using assms(2) b(1) by simp
  then have 2: "binade x < e + 1" by (rule powi2_less_imp)
  from 1 2 show ?thesis by simp
qed

subsection \<open>Rounding to an integer, and values on the grid\<close>

lemma rne_of_int: "rne (of_int k) = k"
  by (simp add: rne_def)

lemma rne_mono: "a \<le> b \<Longrightarrow> rne a \<le> rne b"
proof -
  assume ab: "a \<le> b"
  have fl: "\<lfloor>a\<rfloor> \<le> \<lfloor>b\<rfloor>" using ab by (rule floor_mono)
  show ?thesis
  proof (cases "\<lfloor>a\<rfloor> = \<lfloor>b\<rfloor>")
    case True
    then show ?thesis using ab by (auto simp: rne_def Let_def)
  next
    case False
    then have "\<lfloor>a\<rfloor> + 1 \<le> \<lfloor>b\<rfloor>" using fl by simp
    moreover have "rne a \<le> \<lfloor>a\<rfloor> + 1" by (simp add: rne_def Let_def)
    moreover have "\<lfloor>b\<rfloor> \<le> rne b" by (simp add: rne_def Let_def)
    ultimately show ?thesis by linarith
  qed
qed

lemma rne_lower: "of_int (rne t) \<le> t + 1 / 2"
  unfolding rne_def Let_def by (auto simp: not_less) linarith+

lemma rne_upper: "t - 1 / 2 \<le> of_int (rne t)"
  unfolding rne_def Let_def by (auto simp: not_less) linarith+

lemma quantum_pos: "0 < quantum x"
  by (simp add: quantum_def)

lemma binade_ge: "0 < y \<Longrightarrow> power_int 2 a \<le> y \<Longrightarrow> a \<le> binade y"
proof -
  assume y: "0 < y" and a: "power_int 2 a \<le> y"
  have "power_int (2::rat) a < power_int 2 (binade y + 1)"
    using a binade_bounds(2)[OF y] by simp
  then have "a < binade y + 1" by (rule powi2_less_imp)
  then show ?thesis by simp
qed

lemma binade_lt: "0 < y \<Longrightarrow> y < power_int 2 b \<Longrightarrow> binade y < b"
proof -
  assume y: "0 < y" and b: "y < power_int 2 b"
  have "power_int (2::rat) (binade y) < power_int 2 b"
    using b binade_bounds(1)[OF y] by simp
  then show ?thesis by (rule powi2_less_imp)
qed

lemma r64_exact:
  assumes "x / quantum x = of_int k"
  shows "r64 x = x"
proof -
  have q: "quantum x \<noteq> 0" using quantum_pos[of x] by simp
  have "of_int (rne (x / quantum x)) * quantum x = (x / quantum x) * quantum x"
    by (simp only: assms(1) rne_of_int)
  then show ?thesis using q by (simp add: r64_def)
qed

lemma round64_exact:
  assumes "x / quantum x = of_int k" "\<bar>x\<bar> < 2 ^ 1024"
  shows "round64 x = Num x"
  using r64_exact[OF assms(1)] assms(2) by (simp add: round64_def Let_def)

lemma powi2_neg_nat: "k \<le> 0 \<Longrightarrow> y / power_int (2::rat) k = y * 2 ^ nat (- k)"
  by (simp add: power_int_def field_simps power_inverse)

lemma quantum_int:
  assumes "n \<noteq> 0" "\<bar>n\<bar> < 2 ^ 53"
  shows "\<exists>k. of_int n / quantum (of_int n) = of_int k"
proof -
  let ?x = "of_int n :: rat"
  have x0: "0 < \<bar>?x\<bar>" using assms(1) by simp
  have "1 \<le> \<bar>n\<bar>" using assms(1) by simp
  then have "(1::rat) \<le> of_int \<bar>n\<bar>" using of_int_1_le_iff by blast
  then have 1: "power_int 2 0 \<le> \<bar>?x\<bar>" by simp
  have "(of_int \<bar>n\<bar> :: rat) < of_int (2 ^ 53)" using assms(2) of_int_less_iff by blast
  then have 2: "\<bar>?x\<bar> < power_int 2 53" by simp
  have e0: "0 \<le> binade \<bar>?x\<bar>" using binade_ge[OF x0 1] .
  have e1: "binade \<bar>?x\<bar> < 53" using binade_lt[OF x0 2] .
  have m: "grid_exp ?x \<le> 0" using e0 e1 by (simp add: grid_exp_def)
  have "?x / quantum ?x = ?x * 2 ^ nat (- grid_exp ?x)"
    unfolding quantum_def by (rule powi2_neg_nat[OF m])
  also have "\<dots> = of_int (n * 2 ^ nat (- grid_exp ?x))"
    by simp
  finally show ?thesis by blast
qed

lemma round64_of_int:
  assumes "\<bar>n\<bar> < 2 ^ 53"
  shows "round64 (of_int n) = Num (of_int n)"
proof (cases "n = 0")
  case True
  then show ?thesis by (simp add: round64_def r64_def rne_def)
next
  case False
  from quantum_int[OF False assms] obtain k where k: "of_int n / quantum (of_int n) = of_int k" ..
  have "(of_int \<bar>n\<bar> :: rat) < of_int (2 ^ 53)" using assms of_int_less_iff by blast
  then have "\<bar>of_int n :: rat\<bar> < 2 ^ 1024" by simp
  then show ?thesis using round64_exact[OF k] by simp
qed

lemma lit_numeral: "\<bar>numeral w :: int\<bar> < 2 ^ 53 \<Longrightarrow> lit (numeral w) = Num (numeral w)"
  using round64_of_int[of "numeral w"] by (simp add: lit_def)

lemma lit_0: "lit 0 = Num 0"
  using round64_of_int[of 0] by (simp add: lit_def)

lemma lit_1: "lit 1 = Num 1"
  using round64_of_int[of 1] by (simp add: lit_def)

lemmas lit_simps = lit_numeral lit_0 lit_1

subsection \<open>Exact values, idempotence and monotonicity\<close>

lemma grid_exp_ge: "- 1074 \<le> grid_exp x"
  by (simp add: grid_exp_def)

lemma r64_0: "r64 0 = 0"
  by (simp add: r64_def rne_def)

lemma powi2_pos_nat: "0 \<le> k \<Longrightarrow> power_int (2::rat) k = 2 ^ nat k"
  by (simp add: power_int_def)

lemma powi2_less_mono: "a < b \<Longrightarrow> power_int (2::rat) a < power_int 2 b"
  by (rule power_int_strict_increasing) auto

lemma grid_int_div:
  assumes "j \<le> 0"
  shows "of_int n / power_int (2::rat) j = of_int (n * 2 ^ nat (- j))"
  using powi2_neg_nat[OF assms, of "of_int n"] by simp

lemma r64_grid:
  assumes j: "- 1074 \<le> j" and k: "\<bar>k\<bar> < 2 ^ 53"
  shows "r64 (of_int k * power_int 2 j) = of_int k * power_int 2 j"
proof (cases "k = 0")
  case True
  then show ?thesis by (simp add: r64_0)
next
  case False
  let ?y = "of_int k * power_int (2::rat) j"
  have y0: "0 < \<bar>?y\<bar>" using False by simp
  have "(of_int \<bar>k\<bar> :: rat) < of_int (2 ^ 53)" using k of_int_less_iff by blast
  then have "\<bar>of_int k :: rat\<bar> < power_int 2 53" by simp
  then have "\<bar>?y\<bar> < power_int 2 53 * power_int 2 j"
    by (simp add: abs_mult)
  then have "\<bar>?y\<bar> < power_int 2 (j + 53)" by (simp add: power_int_add mult.commute)
  then have "binade \<bar>?y\<bar> < j + 53" by (rule binade_lt[OF y0])
  then have g: "grid_exp ?y \<le> j" using j by (simp add: grid_exp_def)
  have "?y / quantum ?y = of_int k * power_int 2 (j - grid_exp ?y)"
    by (simp add: quantum_def power_int_diff)
  also have "\<dots> = of_int k * 2 ^ nat (j - grid_exp ?y)"
    using g by (simp add: powi2_pos_nat)
  also have "\<dots> = of_int (k * 2 ^ nat (j - grid_exp ?y))" by simp
  finally show ?thesis by (rule r64_exact)
qed

lemma r64_grid_le:
  assumes j: "- 1074 \<le> j" and k: "\<bar>k\<bar> \<le> 2 ^ 53"
  shows "r64 (of_int k * power_int 2 j) = of_int k * power_int 2 j"
proof (cases "\<bar>k\<bar> < 2 ^ 53")
  case True
  then show ?thesis by (rule r64_grid[OF j])
next
  case False
  then have "k = 2 ^ 53 \<or> k = - (2 ^ 53)" using k by linarith
  then obtain k' :: int where k': "k = k' * 2" "\<bar>k'\<bar> < 2 ^ 53" by auto
  have "of_int k * power_int (2::rat) j = of_int k' * power_int 2 (j + 1)"
    by (simp add: k'(1) power_int_add)
  moreover have "r64 (of_int k' * power_int 2 (j + 1)) = of_int k' * power_int 2 (j + 1)"
    using j by (intro r64_grid k'(2)) simp
  ultimately show ?thesis by simp
qed

lemma rne_abs_le: "\<bar>t\<bar> \<le> of_int n \<Longrightarrow> \<bar>rne t\<bar> \<le> n"
proof -
  assume t: "\<bar>t\<bar> \<le> of_int n"
  then have "t \<le> of_int n" "of_int (- n) \<le> t" by auto
  then have "rne t \<le> rne (of_int n)" "rne (of_int (- n)) \<le> rne t" by (auto intro: rne_mono)
  then have "rne t \<le> n" "- n \<le> rne t" by (simp_all only: rne_of_int)
  then show ?thesis by linarith
qed

lemma quantum_scaled_bound: "\<bar>x / quantum x\<bar> \<le> 2 ^ 53"
proof (cases "x = 0")
  case True
  then show ?thesis by simp
next
  case False
  then have x0: "0 < \<bar>x\<bar>" by simp
  have "\<bar>x\<bar> < power_int 2 (binade \<bar>x\<bar> + 1)" using binade_bounds(2)[OF x0] .
  also have "\<dots> \<le> power_int 2 (grid_exp x + 53)"
    by (rule powi2_mono) (simp add: grid_exp_def)
  also have "\<dots> = 2 ^ 53 * quantum x" by (simp add: quantum_def power_int_add mult.commute)
  finally have "\<bar>x\<bar> / quantum x < 2 ^ 53"
    using quantum_pos[of x] by (simp add: pos_divide_less_eq)
  moreover have "\<bar>quantum x\<bar> = quantum x"
    using quantum_pos[of x] by simp
  ultimately show ?thesis by (simp add: abs_divide)
qed

lemma r64_idem: "r64 (r64 x) = r64 x"
proof -
  have "\<bar>x / quantum x\<bar> \<le> of_int (2 ^ 53)" using quantum_scaled_bound[of x] by simp
  then have "\<bar>rne (x / quantum x)\<bar> \<le> 2 ^ 53" by (rule rne_abs_le)
  then have "r64 (of_int (rne (x / quantum x)) * power_int 2 (grid_exp x))
      = of_int (rne (x / quantum x)) * power_int 2 (grid_exp x)"
    by (intro r64_grid_le grid_exp_ge)
  then show ?thesis by (simp add: r64_def quantum_def)
qed

lemma binade_mono: "0 < x \<Longrightarrow> x \<le> y \<Longrightarrow> binade x \<le> binade y"
proof -
  assume x: "0 < x" and xy: "x \<le> y"
  have "power_int 2 (binade x) \<le> y" using binade_bounds(1)[OF x] xy by simp
  moreover have "0 < y" using x xy by simp
  ultimately show ?thesis by (intro binade_ge)
qed

lemma r64_nonneg: "0 \<le> x \<Longrightarrow> 0 \<le> r64 x"
proof -
  assume "0 \<le> x"
  then have "0 \<le> x / quantum x" using quantum_pos[of x] by simp
  then have "rne 0 \<le> rne (x / quantum x)" by (rule rne_mono)
  then have "0 \<le> rne (x / quantum x)" by (simp add: rne_def)
  then show ?thesis using quantum_pos[of x] by (simp add: r64_def)
qed

text \<open>Rounding does not cross a point of its own grid.\<close>

lemma r64_below:
  assumes "g / quantum x = of_int N" "x < g - quantum x / 2"
  shows "r64 x \<le> g - quantum x"
proof -
  have q: "0 < quantum x" by (rule quantum_pos)
  have "x / quantum x < (g - quantum x / 2) / quantum x"
    using assms(2) q by (simp add: divide_strict_right_mono)
  also have "\<dots> = of_int N - 1 / 2" using q by (simp add: diff_divide_distrib assms(1))
  finally have "of_int (rne (x / quantum x)) < (of_int N :: rat)"
    using rne_lower[of "x / quantum x"] by linarith
  then have "rne (x / quantum x) \<le> N - 1" by simp
  then have "(of_int (rne (x / quantum x)) :: rat) \<le> of_int (N - 1)" using of_int_le_iff by blast
  then have "r64 x \<le> of_int (N - 1) * quantum x"
    unfolding r64_def using q by (simp only: mult_le_cancel_right_pos)
  also have "\<dots> = g - quantum x" using q by (simp add: algebra_simps flip: assms(1))
  finally show ?thesis .
qed

lemma r64_above:
  assumes "g / quantum x = of_int N" "g - quantum x / 2 < x"
  shows "g \<le> r64 x"
proof -
  have q: "0 < quantum x" by (rule quantum_pos)
  have "(g - quantum x / 2) / quantum x < x / quantum x"
    using assms(2) q by (simp add: divide_strict_right_mono)
  moreover have "(g - quantum x / 2) / quantum x = of_int N - 1 / 2"
    using q by (simp add: diff_divide_distrib assms(1))
  ultimately have "(of_int N :: rat) - 1 < of_int (rne (x / quantum x))"
    using rne_upper[of "x / quantum x"] by linarith
  then have "(of_int (N - 1) :: rat) < of_int (rne (x / quantum x))" by simp
  then have "N - 1 < rne (x / quantum x)" using of_int_less_iff by blast
  then have "N \<le> rne (x / quantum x)" by simp
  then have "(of_int N :: rat) \<le> of_int (rne (x / quantum x))" using of_int_le_iff by blast
  then have "of_int N * quantum x \<le> r64 x"
    unfolding r64_def using q by (simp only: mult_le_cancel_right_pos)
  moreover have "of_int N * quantum x = g" using q by (simp flip: assms(1))
  ultimately show ?thesis by simp
qed

lemma r64_same_grid:
  assumes "x \<le> y" "grid_exp x = grid_exp y"
  shows "r64 x \<le> r64 y"
proof -
  have q: "quantum x = quantum y" using assms(2) by (simp add: quantum_def)
  have "x / quantum y \<le> y / quantum y" using assms(1) quantum_pos[of y] by (simp add: divide_right_mono)
  then have "rne (x / quantum y) \<le> rne (y / quantum y)" by (rule rne_mono)
  then have "(of_int (rne (x / quantum y)) :: rat) \<le> of_int (rne (y / quantum y))"
    using of_int_le_iff by blast
  then show ?thesis unfolding r64_def q using quantum_pos[of y]
    by (simp only: mult_le_cancel_right_pos)
qed

lemma r64_le_top:
  assumes "0 < x"
  shows "r64 x \<le> power_int 2 (grid_exp x + 53)"
proof -
  have "x / quantum x \<le> \<bar>x / quantum x\<bar>" by (rule abs_ge_self)
  also have "\<dots> \<le> of_int (2 ^ 53)" using quantum_scaled_bound[of x] by simp
  finally have "rne (x / quantum x) \<le> rne (of_int (2 ^ 53))" by (rule rne_mono)
  then have "rne (x / quantum x) \<le> 2 ^ 53" by (simp only: rne_of_int)
  then have "(of_int (rne (x / quantum x)) :: rat) \<le> of_int (2 ^ 53)" using of_int_le_iff by blast
  then have "r64 x \<le> of_int (2 ^ 53) * quantum x"
    unfolding r64_def using quantum_pos[of x] by (simp only: mult_le_cancel_right_pos)
  also have "\<dots> = power_int 2 (grid_exp x + 53)"
    by (simp add: quantum_def power_int_add mult.commute)
  finally show ?thesis .
qed

lemma r64_ge_bottom:
  assumes "0 < y" "- 1022 \<le> binade y"
  shows "power_int 2 (binade y) \<le> r64 y"
proof -
  have g: "grid_exp y = binade y - 52" using assms by (simp add: grid_exp_def)
  have "power_int 2 (binade y) / quantum y = power_int (2::rat) 52"
    by (simp add: quantum_def g power_int_diff)
  then have "power_int 2 (binade y) / quantum y = of_int (2 ^ 52)" by simp
  moreover have "power_int 2 (binade y) - quantum y / 2 < y"
    using binade_bounds(1)[OF assms(1)] quantum_pos[of y] by linarith
  ultimately show ?thesis by (rule r64_above)
qed

lemma r64_mono:
  assumes "0 \<le> x" "x \<le> y"
  shows "r64 x \<le> r64 y"
proof (cases "x = 0")
  case True
  then show ?thesis using assms r64_nonneg[of y] by (simp add: r64_0)
next
  case False
  then have x: "0 < x" and y: "0 < y" using assms by auto
  have b: "binade x \<le> binade y" using x assms(2) by (rule binade_mono)
  show ?thesis
  proof (cases "grid_exp x = grid_exp y")
    case True
    with assms(2) show ?thesis by (rule r64_same_grid)
  next
    case False
    then have lt: "grid_exp x < grid_exp y" and yb: "- 1022 \<le> binade y"
      and gy: "grid_exp y = binade y - 52"
      using b x y by (auto simp add: grid_exp_def max_def split: if_splits)
    have "r64 x \<le> power_int 2 (grid_exp x + 53)" using x by (rule r64_le_top)
    also have "\<dots> \<le> power_int 2 (binade y)"
      using lt gy by (intro powi2_mono) simp
    also have "\<dots> \<le> r64 y" using y yb by (rule r64_ge_bottom)
    finally show ?thesis .
  qed
qed

lemma is_doubleD: "is_double A \<Longrightarrow> r64 A = A \<and> \<bar>A\<bar> < 2 ^ 1024"
  by (auto simp add: is_double_def round64_def Let_def split: if_splits)

lemma r64_pow2: "- 1074 \<le> j \<Longrightarrow> r64 (power_int 2 j) = power_int 2 j"
  using r64_grid[of j 1] by simp

lemma round64_finite:
  assumes "0 \<le> x" "x \<le> 2 ^ 1023"
  shows "round64 x = Num (r64 x)"
proof -
  have "r64 x \<le> r64 (power_int 2 1023)" using assms by (intro r64_mono) simp_all
  also have "\<dots> = 2 ^ 1023" using r64_pow2[of 1023] by simp
  finally have "r64 x \<le> 2 ^ 1023" .
  moreover have "0 \<le> r64 x" using assms(1) by (rule r64_nonneg)
  ultimately have "\<bar>r64 x\<bar> < 2 ^ 1024" by simp
  then show ?thesis by (simp add: round64_def Let_def)
qed

lemma rne_eqI:
  assumes "of_int n - 1 / 2 < t" "t < of_int n + 1 / 2"
  shows "rne t = n"
proof -
  have "(of_int (rne t) :: rat) < of_int (n + 1)" using rne_lower[of t] assms(2) by simp
  then have 1: "rne t < n + 1" using of_int_less_iff by blast
  have "(of_int (n - 1) :: rat) < of_int (rne t)" using rne_upper[of t] assms(1) by simp
  then have 2: "n - 1 < rne t" using of_int_less_iff by blast
  from 1 2 show ?thesis by simp
qed

text \<open>Evaluating a rounding: name the binade and the integer the scaled value rounds to.\<close>

lemma r64_eval:
  assumes "power_int 2 e \<le> \<bar>x\<bar>" "\<bar>x\<bar> < power_int 2 (e + 1)" "- 1022 \<le> e"
    and "of_int n - 1 / 2 < x / power_int 2 (e - 52)" "x / power_int 2 (e - 52) < of_int n + 1 / 2"
  shows "r64 x = of_int n * power_int 2 (e - 52)"
proof -
  have "binade \<bar>x\<bar> = e" using assms(1,2) by (rule binade_unique)
  then have q: "quantum x = power_int 2 (e - 52)" using assms(3) by (simp add: quantum_def grid_exp_def)
  have "rne (x / power_int 2 (e - 52)) = n" using assms(4,5) by (rule rne_eqI)
  then show ?thesis by (simp add: r64_def q)
qed

lemma r64_6_5: "r64 (6 / 5) = 5404319552844595 / 4503599627370496"
  using r64_eval[of 0 "6 / 5" 5404319552844595] by simp

lemma lit_12_10: "lit (12 / 10) = Num (5404319552844595 / 4503599627370496)"
  by (simp add: lit_def round64_def r64_6_5 Let_def)

subsection \<open>The model against IEEE 754\<close>

text \<open>
  The rounding is off by at most half a spacing, the finite binary64 values are the
  \<open>k * 2^j\<close> with \<open>\<bar>k\<bar> < 2^53\<close> and \<open>-1074 \<le> j\<close> below \<open>2^1024\<close>, and some well-known
  values come out: the binary64 value of 0.1, the largest finite value, the overflow at
  the tie above it, and the underflow at the tie below the smallest subnormal.
\<close>

lemma r64_error: "\<bar>r64 x - x\<bar> \<le> quantum x / 2"
proof -
  have q: "0 < quantum x" by (rule quantum_pos)
  define t where "t = x / quantum x"
  have x: "x = t * quantum x" using q by (simp add: t_def)
  have "\<bar>of_int (rne t) - t\<bar> \<le> 1 / 2" using rne_lower[of t] rne_upper[of t] by linarith
  then have "\<bar>of_int (rne t) - t\<bar> * quantum x \<le> 1 / 2 * quantum x"
    using q by (intro mult_right_mono) simp_all
  moreover have "r64 x - x = (of_int (rne t) - t) * quantum x"
    unfolding r64_def t_def[symmetric] by (subst (2) x) (simp add: algebra_simps)
  ultimately show ?thesis using q by (simp add: abs_mult)
qed

lemma is_double_grid:
  assumes "- 1074 \<le> j" "\<bar>k\<bar> < 2 ^ 53" "\<bar>of_int k * power_int 2 j :: rat\<bar> < 2 ^ 1024"
  shows "is_double (of_int k * power_int 2 j)"
  using r64_grid[OF assms(1,2)] assms(3) by (simp add: is_double_def round64_def Let_def)

lemma is_double_on_grid:
  assumes "is_double x"
  shows "\<exists>k j. - 1074 \<le> j \<and> \<bar>k\<bar> \<le> 2 ^ 53 \<and> x = of_int k * power_int 2 j \<and> \<bar>x\<bar> < 2 ^ 1024"
proof -
  have r: "r64 x = x" and b: "\<bar>x\<bar> < 2 ^ 1024" using is_doubleD[OF assms] by simp_all
  have "\<bar>x / quantum x\<bar> \<le> of_int (2 ^ 53)" using quantum_scaled_bound[of x] by simp
  then have "\<bar>rne (x / quantum x)\<bar> \<le> 2 ^ 53" by (rule rne_abs_le)
  moreover have "x = of_int (rne (x / quantum x)) * power_int 2 (grid_exp x)"
    using r by (simp add: r64_def quantum_def)
  ultimately show ?thesis using grid_exp_ge[of x] b by blast
qed

lemma is_double_iff:
  "is_double x \<longleftrightarrow>
     (\<exists>k j. - 1074 \<le> j \<and> \<bar>k\<bar> < 2 ^ 53 \<and> x = of_int k * power_int 2 j \<and> \<bar>x\<bar> < 2 ^ 1024)"
proof
  assume "is_double x"
  from is_double_on_grid[OF this] obtain k j where kj:
    "- 1074 \<le> j" "\<bar>k\<bar> \<le> 2 ^ 53" "x = of_int k * power_int 2 j" "\<bar>x\<bar> < 2 ^ 1024"
    by blast
  show "\<exists>k j. - 1074 \<le> j \<and> \<bar>k\<bar> < 2 ^ 53 \<and> x = of_int k * power_int 2 j \<and> \<bar>x\<bar> < 2 ^ 1024"
  proof (cases "\<bar>k\<bar> < 2 ^ 53")
    case True
    with kj show ?thesis by blast
  next
    case False
    then have "k = 2 ^ 53 \<or> k = - (2 ^ 53)" using kj(2) by linarith
    then obtain k' :: int where k': "k = k' * 2" "\<bar>k'\<bar> < 2 ^ 53" by auto
    have "x = of_int k' * power_int 2 (j + 1)" by (simp add: kj(3) k'(1) power_int_add)
    moreover have "- 1074 \<le> j + 1" using kj(1) by simp
    ultimately show ?thesis using k'(2) kj(4) by blast
  qed
next
  assume "\<exists>k j. - 1074 \<le> j \<and> \<bar>k\<bar> < 2 ^ 53 \<and> x = of_int k * power_int 2 j \<and> \<bar>x\<bar> < 2 ^ 1024"
  then show "is_double x" using is_double_grid by blast
qed

lemma round64_tenth: "round64 (1 / 10) = Num (3602879701896397 / 36028797018963968)"
proof -
  have "r64 (1 / 10) = 3602879701896397 / 36028797018963968"
    using r64_eval[of "- 4" "1 / 10" 7205759403792794] by simp
  then show ?thesis by (simp add: round64_def)
qed

lemma round64_largest: "round64 (2 ^ 1024 - 2 ^ 971) = Num (2 ^ 1024 - 2 ^ 971)"
proof -
  have "r64 (of_int (2 ^ 53 - 1) * power_int 2 971) = of_int (2 ^ 53 - 1) * power_int 2 971"
    by (rule r64_grid) simp_all
  moreover have "(of_int (2 ^ 53 - 1) * power_int 2 971 :: rat) = 2 ^ 1024 - 2 ^ 971" by simp
  ultimately have "r64 (2 ^ 1024 - 2 ^ 971) = 2 ^ 1024 - 2 ^ 971" by simp
  then show ?thesis by (simp add: round64_def)
qed

lemma rne_tie: "rne (of_int f + 1 / 2) = (if even f then f else f + 1)"
proof -
  have "\<lfloor>of_int f + 1 / 2 :: rat\<rfloor> = f" by (rule floor_unique) simp_all
  then show ?thesis by (simp add: rne_def Let_def)
qed

lemma r64_at:
  assumes "binade \<bar>x\<bar> = e" "g = max e (- 1022) - 52" "rne (x / power_int 2 g) = n"
  shows "r64 x = of_int n * power_int 2 g"
  using assms by (simp add: r64_def quantum_def grid_exp_def)

lemma round64_overflow: "round64 (2 ^ 1024 - 2 ^ 970) = PosInf"
proof -
  have "r64 (2 ^ 1024 - 2 ^ 970) = of_int (2 ^ 53) * power_int 2 971"
  proof (rule r64_at)
    show "binade \<bar>2 ^ 1024 - 2 ^ 970\<bar> = 1023" by (rule binade_unique) simp_all
    show "971 = max 1023 (- 1022) - (52::int)" by simp
    have "(2 ^ 1024 - 2 ^ 970) / power_int (2::rat) 971 = of_int (2 ^ 53 - 1) + 1 / 2" by simp
    then show "rne ((2 ^ 1024 - 2 ^ 970) / power_int 2 971) = 2 ^ 53"
      by (simp only: rne_tie) simp
  qed
  then show ?thesis by (simp add: round64_def)
qed

lemma round64_underflow: "round64 (1 / 2 ^ 1075) = Num 0"
proof -
  have "r64 (1 / 2 ^ 1075) = of_int 0 * power_int 2 (- 1074)"
  proof (rule r64_at)
    show "binade \<bar>1 / 2 ^ 1075\<bar> = - 1075" by (rule binade_unique) simp_all
    show "- 1074 = max (- 1075) (- 1022) - (52::int)" by simp
    have "1 / 2 ^ 1075 / power_int (2::rat) (- 1074) = of_int 0 + 1 / 2" by simp
    then show "rne (1 / 2 ^ 1075 / power_int 2 (- 1074)) = 0"
      by (simp only: rne_tie) simp
  qed
  then show ?thesis by (simp add: round64_def)
qed

section \<open>Facts about the points\<close>

lemma lit_6_5: "lit (6 / 5) = Num (5404319552844595 / 4503599627370496)"
  using lit_12_10 by simp

lemma table_lookup:
  "ToNumber (nullish (get_property STATUS_MULTIPLIER (status_key T)) d) = Num (multiplier64 T)"
  by (cases T) (simp_all add: get_property_def STATUS_MULTIPLIER_def lit_simps lit_6_5)

lemma multiplier64_bounds: "1 \<le> multiplier64 T" "multiplier64 T \<le> 2"
  by (cases T; simp)+

lemma r64_div10_bounds:
  assumes "0 < A" "A < 2 ^ 1024"
  shows "0 \<le> r64 (A / 10)" "r64 (A / 10) \<le> 2 ^ 1021"
proof -
  show "0 \<le> r64 (A / 10)" using assms(1) by (intro r64_nonneg) simp
  have "A / 10 \<le> 2 ^ 1024 / 10" using assms(2) by simp
  also have "\<dots> \<le> power_int 2 1021" by simp
  finally have "r64 (A / 10) \<le> r64 (power_int 2 1021)" using assms(1) by (intro r64_mono) simp_all
  then show "r64 (A / 10) \<le> 2 ^ 1021" using r64_pow2[of 1021] by simp
qed

lemma calc_finite:
  assumes "is_double A" "0 < A"
  shows "calcPointsWithStatus (status_key T) (Num A)
         = Num (of_int \<lfloor>r64 (of_int \<lfloor>r64 (A / 10)\<rfloor> * multiplier64 T)\<rfloor>)"
proof -
  have "\<bar>A\<bar> < 2 ^ 1024" using is_doubleD[OF assms(1)] ..
  then have A: "A < 2 ^ 1024" by (rule abs_less_iff[THEN iffD1, THEN conjunct1])
  note b = r64_div10_bounds[OF assms(2) A]
  have d: "round64 (A / 10) = Num (r64 (A / 10))"
    using assms(2) A by (intro round64_finite) simp_all
  let ?b = "of_int \<lfloor>r64 (A / 10)\<rfloor> :: rat"
  have b0: "0 \<le> ?b" using b(1) by simp
  have "?b \<le> r64 (A / 10)" by simp
  then have b1: "?b \<le> 2 ^ 1021" using b(2) by (rule order_trans)
  have "?b * multiplier64 T \<le> 2 ^ 1021 * 2"
    using b0 b1 multiplier64_bounds[of T] by (intro mult_mono) simp_all
  then have m1: "?b * multiplier64 T \<le> 2 ^ 1023" by simp
  have m0: "0 \<le> ?b * multiplier64 T"
    using b0 multiplier64_bounds(1)[of T] by (intro mult_nonneg_nonneg) simp_all
  have m: "round64 (?b * multiplier64 T) = Num (r64 (?b * multiplier64 T))"
    using m0 m1 by (rule round64_finite)
  show ?thesis
    by (simp add: calcPointsWithStatus_def Let_def BASE_POINT_DIVISOR_def lit_simps table_lookup d m
        del: status_key.simps)
qed

lemma calc_mono:
  assumes "0 < A1" "A1 \<le> A2"
  shows "\<lfloor>r64 (of_int \<lfloor>r64 (A1 / 10)\<rfloor> * multiplier64 T)\<rfloor>
         \<le> \<lfloor>r64 (of_int \<lfloor>r64 (A2 / 10)\<rfloor> * multiplier64 T)\<rfloor>"
proof -
  have "r64 (A1 / 10) \<le> r64 (A2 / 10)" using assms by (intro r64_mono) simp_all
  then have f: "\<lfloor>r64 (A1 / 10)\<rfloor> \<le> \<lfloor>r64 (A2 / 10)\<rfloor>" by (rule floor_mono)
  have "0 \<le> r64 (A1 / 10)" using assms(1) by (intro r64_nonneg) simp
  then have f0: "0 \<le> \<lfloor>r64 (A1 / 10)\<rfloor>" by simp
  have m: "0 \<le> multiplier64 T" using multiplier64_bounds(1)[of T] by simp
  have "(of_int \<lfloor>r64 (A1 / 10)\<rfloor> :: rat) \<le> of_int \<lfloor>r64 (A2 / 10)\<rfloor>"
    using f of_int_le_iff by blast
  then have "of_int \<lfloor>r64 (A1 / 10)\<rfloor> * multiplier64 T \<le> of_int \<lfloor>r64 (A2 / 10)\<rfloor> * multiplier64 T"
    using m by (rule mult_right_mono)
  moreover have "0 \<le> of_int \<lfloor>r64 (A1 / 10)\<rfloor> * multiplier64 T"
    using f0 m by (intro mult_nonneg_nonneg) simp_all
  ultimately have "r64 (of_int \<lfloor>r64 (A1 / 10)\<rfloor> * multiplier64 T)
      \<le> r64 (of_int \<lfloor>r64 (A2 / 10)\<rfloor> * multiplier64 T)"
    by (intro r64_mono)
  then show ?thesis by (rule floor_mono)
qed

lemma calc_nonneg:
  assumes "0 < A"
  shows "0 \<le> \<lfloor>r64 (of_int \<lfloor>r64 (A / 10)\<rfloor> * multiplier64 T)\<rfloor>"
proof -
  have "0 \<le> r64 (A / 10)" using assms by (intro r64_nonneg) simp
  then have "0 \<le> \<lfloor>r64 (A / 10)\<rfloor>" by simp
  then have "0 \<le> of_int \<lfloor>r64 (A / 10)\<rfloor> * multiplier64 T"
    using multiplier64_bounds(1)[of T] by (intro mult_nonneg_nonneg) simp_all
  then have "0 \<le> r64 (of_int \<lfloor>r64 (A / 10)\<rfloor> * multiplier64 T)" by (rule r64_nonneg)
  then show ?thesis by simp
qed

lemma r64_of_int: "\<bar>n\<bar> < 2 ^ 53 \<Longrightarrow> r64 (of_int n) = of_int n"
  using r64_grid[of 0 n] by simp

lemma grid_exp_pos: "0 < x \<Longrightarrow> - 1022 \<le> binade x \<Longrightarrow> grid_exp x = binade x - 52"
  by (simp add: grid_exp_def)

lemma r64_div10_small:
  assumes "0 < A" "A \<le> 5"
  shows "r64 (A / 10) < 1"
proof -
  have "r64 (A / 10) \<le> r64 (power_int 2 (- 1))" using assms by (intro r64_mono) simp_all
  also have "\<dots> = power_int 2 (- 1)" by (rule r64_pow2) simp
  also have "\<dots> < 1" by simp
  finally show ?thesis .
qed

lemma r64_div10_large:
  assumes dA: "r64 A = A" and A5: "5 < A" and A54: "A < 2 ^ 54" and An: "A < 10 * of_int n"
  shows "r64 (A / 10) < of_int n"
proof -
  define e where "e = binade A"
  have A0: "0 < A" using A5 by simp
  have e_lo: "2 \<le> e" unfolding e_def using A5 by (intro binade_ge[OF A0]) simp
  have e_hi: "e < 54" unfolding e_def using A54 by (intro binade_lt[OF A0]) simp
  have gA: "grid_exp A = e - 52" unfolding e_def using e_lo A0 by (intro grid_exp_pos) (simp_all add: e_def)
  define qA where "qA = quantum A"
  have qA: "qA = power_int 2 (e - 52)" by (simp add: qA_def quantum_def gA)
  have qA0: "0 < qA" unfolding qA_def by (rule quantum_pos)
  \<comment> \<open>the amount and ten times the integer are both on the grid of the amount\<close>
  have kA: "A / qA = of_int (rne (A / qA))"
  proof -
    have "of_int (rne (A / qA)) * qA = A" using dA by (simp add: r64_def qA_def)
    then show ?thesis using qA0 by (simp add: field_simps)
  qed
  have "\<exists>N. 10 * of_int n / qA = (of_int N :: rat)"
  proof (cases "e - 52 \<le> 0")
    case True
    have "of_int (10 * n) / power_int (2::rat) (e - 52) = of_int (10 * n * 2 ^ nat (- (e - 52)))"
      using True by (rule grid_int_div)
    then show ?thesis unfolding qA by (intro exI[of _ "10 * n * 2 ^ nat (- (e - 52))"]) simp
  next
    case False
    then have "e - 52 = 1" using e_hi by simp
    then have "qA = 2" by (simp add: qA)
    then show ?thesis by (intro exI[of _ "5 * n"]) simp
  qed
  then obtain N where N: "10 * of_int n / qA = (of_int N :: rat)" ..
  have "A / qA < 10 * of_int n / qA" using An qA0 by (simp add: divide_strict_right_mono)
  then have "(of_int (rne (A / qA)) :: rat) < of_int N" using kA N by simp
  then have "rne (A / qA) + 1 \<le> N" by simp
  then have "(of_int (rne (A / qA) + 1) :: rat) \<le> of_int N" using of_int_le_iff by blast
  then have "A / qA + 1 \<le> 10 * of_int n / qA" using kA N by simp
  then have "(A / qA + 1) * qA \<le> (10 * of_int n / qA) * qA"
    using qA0 by (intro mult_right_mono) simp_all
  then have step: "A + qA \<le> 10 * of_int n" using qA0 by (simp add: distrib_right)
  \<comment> \<open>the grid of the tenth is at least eight times finer\<close>
  define x where "x = A / 10"
  have x0: "0 < x" using A0 by (simp add: x_def)
  have "power_int 2 (- 1) \<le> x" using A5 by (simp add: x_def)
  then have e'_lo: "- 1 \<le> binade x" by (rule binade_ge[OF x0])
  have "A < power_int 2 (e + 1)" unfolding e_def by (rule binade_bounds(2)[OF A0])
  then have "x < power_int 2 (e + 1) / 8" using A0 by (simp add: x_def)
  also have "\<dots> = power_int 2 (e - 2)"
    by (simp add: power_int_diff power_int_add)
  finally have e'_hi: "binade x < e - 2" by (rule binade_lt[OF x0])
  have gx: "grid_exp x = binade x - 52" using x0 e'_lo by (intro grid_exp_pos) simp_all
  have gx_le: "grid_exp x \<le> e - 55" using e'_hi gx by simp
  have "quantum x \<le> power_int 2 (e - 55)" unfolding quantum_def using gx_le by (rule powi2_mono)
  also have "\<dots> = qA / 8" by (simp add: qA power_int_diff)
  finally have q': "quantum x \<le> qA / 8" .
  have "of_int n / power_int (2::rat) (grid_exp x) = of_int (n * 2 ^ nat (- grid_exp x))"
    using gx_le e_hi by (intro grid_int_div) simp
  then have nq: "of_int n / quantum x = of_int (n * 2 ^ nat (- grid_exp x))"
    by (simp add: quantum_def)
  have "x \<le> of_int n - qA / 10" using step by (simp add: x_def)
  then have "x < of_int n - quantum x / 2" using q' qA0 by linarith
  with nq have "r64 x \<le> of_int n - quantum x" by (rule r64_below)
  then show ?thesis using quantum_pos[of x] by (simp add: x_def)
qed

lemma r64_div10_huge:
  assumes dA: "r64 A = A" and A54: "2 ^ 54 \<le> A" and Ahi: "A < 10 * 2 ^ 51" and An: "A < 10 * of_int n"
  shows "r64 (A / 10) < of_int n"
proof -
  have A0: "0 < A" using A54 by (rule less_le_trans[rotated]) simp
  have e: "binade A = 54" using A54 Ahi by (intro binade_unique) simp_all
  have qA: "quantum A = 4" using A0 by (simp add: quantum_def grid_exp_def e)
  \<comment> \<open>the amount is a multiple of four, ten times the integer is even\<close>
  have "of_int (rne (A / 4)) * 4 = A" using dA by (simp add: r64_def qA)
  then have kA: "A / 2 = of_int (2 * rne (A / 4))" by simp
  have "A / 2 < of_int (5 * n)" using An by simp
  then have "(of_int (2 * rne (A / 4)) :: rat) < of_int (5 * n)" by (simp only: kA)
  then have "2 * rne (A / 4) < 5 * n" using of_int_less_iff by blast
  then have "2 * rne (A / 4) + 1 \<le> 5 * n" by simp
  then have "(of_int (2 * rne (A / 4) + 1) :: rat) \<le> of_int (5 * n)" using of_int_le_iff by blast
  then have "A / 2 + 1 \<le> of_int (5 * n)" using kA by simp
  then have step: "A + 2 \<le> 10 * of_int n" by simp
  \<comment> \<open>the tenth lies in the binade of \<open>2^50\<close>, where the spacing is a quarter\<close>
  define x where "x = A / 10"
  have x0: "0 < x" using A0 by (simp add: x_def)
  have "binade x = 50" using A54 Ahi by (intro binade_unique) (simp_all add: x_def)
  then have q: "quantum x = 1 / 4" using x0 by (simp add: quantum_def grid_exp_def)
  have nq: "of_int n / quantum x = of_int (n * 4)" by (simp add: q)
  have "x \<le> of_int n - 1 / 5" using step by (simp add: x_def)
  then have "x < of_int n - quantum x / 2" by (simp add: q)
  with nq have "r64 x \<le> of_int n - quantum x" by (rule r64_below)
  then show ?thesis using quantum_pos[of x] by (simp add: x_def)
qed

lemma floor_r64_div10_top:
  assumes dA: "r64 A = A" and Alo: "10 * 2 ^ 51 \<le> A" and Ahi: "A < 22517998136852488"
  shows "\<lfloor>r64 (A / 10)\<rfloor> = \<lfloor>A / 10\<rfloor>"
proof -
  have A0: "0 < A" using Alo by (rule less_le_trans[rotated]) simp
  have e: "binade A = 54" using Alo Ahi by (intro binade_unique) simp_all
  have qA: "quantum A = 4" using A0 by (simp add: quantum_def grid_exp_def e)
  define k where "k = rne (A / 4)"
  have A: "A = of_int (k * 4)" using dA by (simp add: r64_def qA k_def)
  have "(of_int (5629499534213120 * 4) :: rat) \<le> of_int (k * 4)" using Alo A by simp
  then have "5629499534213120 * 4 \<le> k * 4" using of_int_le_iff by blast
  then have k_lo: "5629499534213120 \<le> k" by simp
  have "(of_int (k * 4) :: rat) < of_int (5629499534213122 * 4)" using Ahi A by simp
  then have "k * 4 < 5629499534213122 * 4" using of_int_less_iff by blast
  then have k_hi: "k < 5629499534213122" by simp
  from k_lo k_hi have "k = 5629499534213120 \<or> k = 5629499534213121" by linarith
  then show ?thesis
  proof
    assume "k = 5629499534213120"
    then have "A / 10 = 2251799813685248" by (simp add: A)
    then show ?thesis using r64_of_int[of 2251799813685248] by simp
  next
    assume "k = 5629499534213121"
    then have t: "A / 10 = 11258999068426242 / 5" by (simp add: A)
    have r: "r64 (11258999068426242 / 5) = 4503599627370497 / 2"
      using r64_eval[of 51 "11258999068426242 / 5" 4503599627370497] by simp
    have "\<lfloor>4503599627370497 / 2 :: rat\<rfloor> = 2251799813685248" by (rule floor_unique) simp_all
    moreover have "\<lfloor>11258999068426242 / 5 :: rat\<rfloor> = 2251799813685248" by (rule floor_unique) simp_all
    ultimately show ?thesis by (simp add: t r)
  qed
qed

lemma floor_r64_div10:
  assumes dA: "r64 A = A" and A0: "0 < A" and Ahi: "A < 22517998136852488"
  shows "\<lfloor>r64 (A / 10)\<rfloor> = \<lfloor>A / 10\<rfloor>"
proof (cases "A < 10 * 2 ^ 51")
  case False
  then have "10 * 2 ^ 51 \<le> A" by simp
  with dA show ?thesis using Ahi by (rule floor_r64_div10_top)
next
  case True
  define m where "m = \<lfloor>A / 10\<rfloor>"
  have m0: "0 \<le> m" using A0 by (simp add: m_def)
  have m_le: "of_int m \<le> A / 10" unfolding m_def by (rule of_int_floor_le)
  have m_gt: "A / 10 < of_int (m + 1)" unfolding m_def by linarith
  then have An: "A < 10 * of_int (m + 1)" by simp
  have "(of_int m :: rat) < 2 ^ 53" using m_le True by simp
  then have "(of_int m :: rat) < of_int (2 ^ 53)" by simp
  then have "m < 2 ^ 53" using of_int_less_iff by blast
  then have "r64 (of_int m) = of_int m" using m0 by (intro r64_of_int) simp
  moreover have "r64 (of_int m) \<le> r64 (A / 10)" using m0 m_le by (intro r64_mono) simp_all
  ultimately have lo: "of_int m \<le> r64 (A / 10)" by simp
  have hi: "r64 (A / 10) < of_int (m + 1)"
  proof (cases "A \<le> 5")
    case True
    then have "r64 (A / 10) < 1" using A0 by (intro r64_div10_small)
    also have "(1::rat) \<le> of_int (m + 1)" using m0 by simp
    finally show ?thesis .
  next
    case False
    then have A5: "5 < A" by simp
    show ?thesis
    proof (cases "A < 2 ^ 54")
      case True
      with dA A5 show ?thesis using An by (rule r64_div10_large)
    next
      case False
      then have "2 ^ 54 \<le> A" by simp
      with dA show ?thesis using \<open>A < 10 * 2 ^ 51\<close> An by (rule r64_div10_huge)
    qed
  qed
  have "\<lfloor>r64 (A / 10)\<rfloor> = m" using lo hi by (intro floor_unique) simp_all
  then show ?thesis by (simp add: m_def)
qed

lemma gold_floor:
  fixes b :: int
  assumes b0: "0 \<le> b" and bhi: "b \<le> 2 ^ 51"
  shows "\<lfloor>r64 (of_int b * (5404319552844595 / 4503599627370496))\<rfloor> = \<lfloor>of_int b * (12 / 10 :: rat)\<rfloor>"
proof (cases "b = 0")
  case True
  then show ?thesis by (simp add: r64_0)
next
  case False
  define B :: rat where "B = of_int b"
  define k where "k = \<lfloor>B * (12 / 10)\<rfloor>"
  define K :: rat where "K = of_int k"
  define x where "x = B * (5404319552844595 / 4503599627370496)"
  have "1 \<le> b" using b0 False by simp
  then have B1: "1 \<le> B" unfolding B_def using of_int_1_le_iff by blast
  have "(of_int b :: rat) \<le> of_int (2 ^ 51)" using bhi of_int_le_iff by blast
  then have B51: "B \<le> 2 ^ 51" by (simp add: B_def)
  have xB: "x = 6 * B / 5 - B / (5 * 2 ^ 52)" by (simp add: x_def)
  have x_lo: "B \<le> x" using B1 by (simp add: x_def)
  have x_hi: "x < 6 * B / 5" using B1 by (simp add: xB)
  have x0: "0 < x" using B1 x_lo by simp
  have K_le: "K \<le> 6 * B / 5" unfolding K_def k_def using of_int_floor_le[of "B * (12 / 10)"] by simp
  have K_gt: "6 * B / 5 < K + 1" unfolding K_def k_def using floor_less_iff[of "B * (12 / 10)" "\<lfloor>B * (12 / 10)\<rfloor> + 1"] by simp
  have K0: "0 \<le> K" using K_gt B1 by linarith
  have k0: "0 \<le> k" using B1 by (simp add: k_def)
  have "K < 2 ^ 53" using K_le B51 by simp
  then have "(of_int k :: rat) < of_int (2 ^ 53)" by (simp add: K_def)
  then have k53: "k < 2 ^ 53" using of_int_less_iff by blast
  have rK: "r64 K = K" unfolding K_def using k0 k53 by (intro r64_of_int) simp
  \<comment> \<open>the grid around the product\<close>
  have "power_int 2 0 \<le> x" using B1 x_lo by simp
  then have e_lo: "0 \<le> binade x" by (rule binade_ge[OF x0])
  have "x < power_int 2 52" using x_hi B51 by simp
  then have e_hi: "binade x < 52" by (rule binade_lt[OF x0])
  have gx: "grid_exp x = binade x - 52" using x0 e_lo by (intro grid_exp_pos) simp_all
  have q: "quantum x = power_int 2 (binade x - 52)" by (simp add: quantum_def gx)
  have q0: "0 < quantum x" by (rule quantum_pos)
  have onq: "\<And>n. \<exists>N. of_int n / quantum x = (of_int N :: rat)"
  proof -
    fix n
    have "of_int n / power_int (2::rat) (binade x - 52) = of_int (n * 2 ^ nat (- (binade x - 52)))"
      using e_hi by (intro grid_int_div) simp
    then show "\<exists>N. of_int n / quantum x = (of_int N :: rat)" unfolding q by blast
  qed
  \<comment> \<open>the error of the multiplier, scaled by the base, is below half the spacing\<close>
  have "x < power_int 2 (binade x + 1)" by (rule binade_bounds(2)[OF x0])
  also have "\<dots> = 2 ^ 53 * quantum x" by (simp add: q power_int_diff power_int_add)
  finally have "B < 2 ^ 53 * quantum x" using x_lo by simp
  also have "\<dots> \<le> 5 * 2 ^ 51 * quantum x" using q0 by simp
  finally have "B < 5 * 2 ^ 51 * quantum x" .
  then have err: "B / (5 * 2 ^ 52) < quantum x / 2" by (simp add: mult.commute)
  have lo: "K \<le> r64 x"
  proof (cases "6 * b = 5 * k")
    case True
    then have "(of_int (6 * b) :: rat) = of_int (5 * k)" by simp
    then have "6 * B / 5 = K" by (simp add: B_def K_def)
    then have "K - quantum x / 2 < x" using err by (simp add: xB)
    moreover obtain N where "K / quantum x = of_int N" using onq[of k] unfolding K_def by blast
    ultimately show ?thesis by (intro r64_above)
  next
    case False
    have "(of_int (5 * k) :: rat) \<le> of_int (6 * b)" using K_le by (simp add: B_def K_def)
    then have "5 * k \<le> 6 * b" using of_int_le_iff by blast
    then have "5 * k + 1 \<le> 6 * b" using False by simp
    then have "(of_int (5 * k + 1) :: rat) \<le> of_int (6 * b)" using of_int_le_iff by blast
    then have "K + 1 / 5 \<le> 6 * B / 5" by (simp add: B_def K_def)
    moreover have "B / (5 * 2 ^ 52) \<le> 1 / 5" using B51 by simp
    ultimately have "K \<le> x" by (simp add: xB)
    then have "r64 K \<le> r64 x" using K0 by (intro r64_mono)
    then show ?thesis by (simp add: rK)
  qed
  have hi: "r64 x < K + 1"
  proof (cases "6 * b = 5 * k")
    case True
    then have "(of_int (6 * b) :: rat) = of_int (5 * k)" by simp
    then have "6 * B / 5 = K" by (simp add: B_def K_def)
    then have "x \<le> K" using x_hi by simp
    then have "r64 x \<le> r64 K" using x0 by (intro r64_mono) simp_all
    then show ?thesis by (simp add: rK)
  next
    case False
    have "(of_int (6 * b) :: rat) < of_int (5 * k + 5)" using K_gt by (simp add: B_def K_def)
    then have "6 * b < 5 * k + 5" using of_int_less_iff by blast
    then have "6 * b \<le> 5 * k + 4" by simp
    then have "(of_int (6 * b) :: rat) \<le> of_int (5 * k + 4)" using of_int_le_iff by blast
    then have frac: "6 * B / 5 \<le> K + 4 / 5" by (simp add: B_def K_def)
    have "x < (K + 1) - quantum x / 2"
    proof (cases "binade x < 51")
      case True
      then have "quantum x \<le> power_int 2 (- 2)" unfolding q by (intro powi2_mono) simp
      then have "quantum x \<le> 1 / 4" by simp
      then show ?thesis using frac x_hi by linarith
    next
      case False
      then have b51: "binade x = 51" using e_hi by simp
      then have "quantum x = power_int 2 (- 1)" by (simp add: q)
      then have q2: "quantum x = 1 / 2" by simp
      have "power_int 2 51 \<le> x" using binade_bounds(1)[OF x0] by (simp add: b51)
      then have "2 ^ 51 < 6 * B / 5" using x_hi by simp
      then have "1 / 12 < B / (5 * 2 ^ 52)" by simp
      moreover define d where "d = B / (5 * 2 ^ 52)"
      ultimately have d: "1 / 12 < d" by simp
      have "x = 6 * B / 5 - d" unfolding d_def by (rule xB)
      then show ?thesis using frac d q2 by linarith
    qed
    moreover obtain N where "(K + 1) / quantum x = of_int N"
      using onq[of "k + 1"] unfolding K_def by auto
    ultimately have "r64 x \<le> (K + 1) - quantum x" by (intro r64_below)
    then show ?thesis using q0 by simp
  qed
  have "\<lfloor>r64 x\<rfloor> = k" using lo hi unfolding K_def by (intro floor_unique) simp_all
  then show ?thesis by (simp add: x_def k_def B_def)
qed

lemma is_double_of_int: "\<bar>n\<bar> < 2 ^ 53 \<Longrightarrow> is_double (of_int n)"
  unfolding is_double_def by (rule round64_of_int)

lemma is_double_numeral: "\<bar>numeral w :: int\<bar> < 2 ^ 53 \<Longrightarrow> is_double (numeral w)"
  using is_double_of_int[of "numeral w"] by simp

lemma calc_formula:
  assumes dA: "is_double A" and A0: "0 < A" and Ahi: "A < 22517998136852488"
  shows "calcPointsWithStatus (status_key T) (Num A) = Num (of_int (calculatePoints T A))"
proof -
  define b where "b = \<lfloor>A / 10\<rfloor>"
  have rA: "r64 A = A" using is_doubleD[OF dA] ..
  have fb: "\<lfloor>r64 (A / 10)\<rfloor> = b" unfolding b_def using rA A0 Ahi by (rule floor_r64_div10)
  have b0: "0 \<le> b" using A0 by (simp add: b_def)
  have "of_int b \<le> A / 10" unfolding b_def by (rule of_int_floor_le)
  then have "(of_int b :: rat) < of_int (2 ^ 51 + 1)" using Ahi by simp
  then have "b < 2 ^ 51 + 1" using of_int_less_iff by blast
  then have b51: "b \<le> 2 ^ 51" by simp
  have r1: "r64 (of_int b) = of_int b" using b0 b51 by (intro r64_of_int) simp
  have "r64 (of_int (b * 2)) = of_int (b * 2)" using b0 b51 by (intro r64_of_int) simp
  then have r2: "r64 (of_int b * 2) = of_int b * 2" by simp
  have "\<lfloor>r64 (of_int b * multiplier64 T)\<rfloor> = \<lfloor>of_int b * multiplier T\<rfloor>"
  proof (cases T)
    case GOLD
    then show ?thesis using gold_floor[OF b0 b51] by simp
  qed (simp_all add: r1 r2)
  then show ?thesis
    using calc_finite[OF dA A0, of T] by (simp add: fb calculatePoints_def b_def)
qed

lemma calculatePoints_examples:
  "calculatePoints BRONZE 100 = 10" "calculatePoints SILVER 100 = 10"
  "calculatePoints GOLD 100 = 12" "calculatePoints PLATINUM 100 = 20"
  "calculatePoints GOLD 9 = 0"
  by code_simp+

lemma is_double_big: "is_double 22517998136852488"
proof -
  have "r64 (of_int 5629499534213122 * power_int 2 2) = of_int 5629499534213122 * power_int 2 2"
    by (rule r64_grid) simp_all
  then have "r64 22517998136852488 = 22517998136852488" by simp
  then show ?thesis by (simp add: is_double_def round64_def)
qed

lemma r64_big_tenth: "r64 (11258999068426244 / 5) = 2251799813685249"
  using r64_eval[of 51 "11258999068426244 / 5" 4503599627370498] by simp

lemma calc_big: "calcPointsWithStatus (status_key BRONZE) (Num 22517998136852488) = Num 2251799813685249"
proof -
  have "r64 (of_int 2251799813685249) = of_int 2251799813685249" by (rule r64_of_int) simp
  then have "r64 2251799813685249 = 2251799813685249" by simp
  then show ?thesis
    using calc_finite[OF is_double_big, of BRONZE] by (simp add: r64_big_tenth)
qed

lemma round64_floor_r64:
  assumes "\<bar>r64 x\<bar> < 2 ^ 1024"
  shows "round64 (of_int \<lfloor>r64 x\<rfloor>) = Num (of_int \<lfloor>r64 x\<rfloor>)"
proof (cases "0 \<le> grid_exp x")
  case True
  have "r64 x = of_int (rne (x / quantum x)) * 2 ^ nat (grid_exp x)"
    using True by (simp add: r64_def quantum_def powi2_pos_nat)
  also have "\<dots> = of_int (rne (x / quantum x) * 2 ^ nat (grid_exp x))" by simp
  finally have eq: "of_int \<lfloor>r64 x\<rfloor> = r64 x" by (simp only: floor_of_int)
  have "round64 (r64 x) = Num (r64 x)" using assms by (simp add: round64_def Let_def r64_idem)
  then show ?thesis by (simp only: eq)
next
  case False
  then have "quantum x \<le> power_int 2 (- 1)" unfolding quantum_def by (intro powi2_mono) simp
  then have q: "quantum x \<le> 1 / 2" by simp
  have "\<bar>x / quantum x\<bar> \<le> of_int (2 ^ 53)" using quantum_scaled_bound[of x] by simp
  then have "\<bar>rne (x / quantum x)\<bar> \<le> 2 ^ 53" by (rule rne_abs_le)
  then have "(of_int \<bar>rne (x / quantum x)\<bar> :: rat) \<le> of_int (2 ^ 53)" using of_int_le_iff by blast
  then have k: "\<bar>of_int (rne (x / quantum x)) :: rat\<bar> \<le> 2 ^ 53" by simp
  have "\<bar>r64 x\<bar> = \<bar>of_int (rne (x / quantum x)) :: rat\<bar> * quantum x"
    using quantum_pos[of x] by (simp add: r64_def abs_mult)
  also have "\<dots> \<le> 2 ^ 53 * (1 / 2)"
    using k q quantum_pos[of x] by (intro mult_mono) simp_all
  finally have "\<bar>r64 x\<bar> \<le> of_int (2 ^ 52)" by simp
  then have up: "r64 x < of_int (2 ^ 52) + 1" and dn: "of_int (- (2 ^ 52)) \<le> r64 x"
    by (simp_all add: abs_le_iff)
  define n where "n = \<lfloor>r64 x\<rfloor>"
  have "n \<le> 2 ^ 52" unfolding n_def using up by (rule floor_le_iff[THEN iffD2])
  moreover have "- (2 ^ 52) \<le> n" unfolding n_def using dn by (rule le_floor_iff[THEN iffD2])
  ultimately have "\<bar>n\<bar> < 2 ^ 53" by simp
  then have "\<bar>\<lfloor>r64 x\<rfloor>\<bar> < 2 ^ 53" by (simp only: n_def)
  then show ?thesis by (rule round64_of_int)
qed

lemma js_mul_one_floor_round64:
  "js_mul (Math_floor (round64 x)) (Num 1) = Math_floor (round64 x)"
proof (cases "2 ^ 1024 \<le> \<bar>r64 x\<bar>")
  case True
  then show ?thesis by (simp add: round64_def Let_def)
next
  case False
  then have "\<bar>r64 x\<bar> < 2 ^ 1024" by simp
  from round64_floor_r64[OF this] False show ?thesis by (simp add: round64_def Let_def)
qed

lemma js_mul_one_floor_div:
  "js_mul (Math_floor (js_div amount (Num 10))) (Num 1) = Math_floor (js_div amount (Num 10))"
  by (cases amount) (simp_all add: js_mul_one_floor_round64)

lemma Math_floor_idem: "Math_floor (Math_floor y) = Math_floor y"
  by (cases y) simp_all

lemma unknown_key:
  assumes "st \<notin> {''PLATINUM'', ''GOLD'', ''SILVER'', ''BRONZE''}" "st \<notin> set Object_prototype"
  shows "get_property STATUS_MULTIPLIER st = Undefined"
  using assms by (simp add: get_property_def STATUS_MULTIPLIER_def)

lemma calc_fallback:
  assumes "st \<notin> {''PLATINUM'', ''GOLD'', ''SILVER'', ''BRONZE''}" "st \<notin> set Object_prototype"
  shows "calcPointsWithStatus st amount = Math_floor (js_div amount BASE_POINT_DIVISOR)"
  by (simp add: calcPointsWithStatus_def Let_def unknown_key[OF assms] BASE_POINT_DIVISOR_def
      lit_simps js_mul_one_floor_div Math_floor_idem)

lemma calc_fallback_exact:
  assumes "st \<notin> {''PLATINUM'', ''GOLD'', ''SILVER'', ''BRONZE''}" "st \<notin> set Object_prototype"
    and dA: "is_double A" and A0: "0 < A" and Ahi: "A < 22517998136852488"
  shows "calcPointsWithStatus st (Num A) = Num (of_int \<lfloor>A / 10\<rfloor>)"
proof -
  have rA: "r64 A = A" using is_doubleD[OF dA] ..
  have "round64 (A / 10) = Num (r64 (A / 10))"
    using A0 Ahi by (intro round64_finite) simp_all
  moreover have "\<lfloor>r64 (A / 10)\<rfloor> = \<lfloor>A / 10\<rfloor>" using rA A0 Ahi by (rule floor_r64_div10)
  ultimately show ?thesis
    using A0 by (simp add: calc_fallback[OF assms(1,2)] BASE_POINT_DIVISOR_def lit_simps)
qed

text \<open>
  The lookup also finds what the literal inherits. Under such a key the value found is
  not nullish, so \<^verbatim>\<open>?? 1.0\<close> does not take its fallback and the product is NaN: a
  defect of the lookup, at keys no typed call passes.
\<close>

lemma calc_inherited_key: "calcPointsWithStatus ''constructor'' (lit 100) = NaN"
proof -
  have "round64 10 = Num 10" using round64_of_int[of 10] by simp
  then show ?thesis
    by (simp add: calcPointsWithStatus_def Let_def get_property_def STATUS_MULTIPLIER_def
        Object_prototype_def BASE_POINT_DIVISOR_def lit_simps)
qed

lemma pearl_unknown:
  "''PEARL'' \<notin> {''PLATINUM'', ''GOLD'', ''SILVER'', ''BRONZE''}" "''PEARL'' \<notin> set Object_prototype"
  by (simp_all add: Object_prototype_def)

section \<open>The Points Calculator\<close>

text \<open>
  C1, as stated, fails. The amount 22517998136852488 is a binary64 value, finite and
  positive. A tenth of it is 2251799813685248.8, which lies between the neighbouring
  binary64 values 2251799813685248.5 and 2251799813685249 and rounds to the second: the
  BRONZE award of the code is 2251799813685249, while the floor of the exact tenth, times
  the multiplier 1, is 2251799813685248.
\<close>

theorem calcPointsWithStatus_formula_counterexample:
  "is_double 22517998136852488 \<and> (0::rat) < 22517998136852488
   \<and> calcPointsWithStatus (status_key BRONZE) (Num 22517998136852488) = Num 2251799813685249
   \<and> calculatePoints BRONZE 22517998136852488 = 2251799813685248"
proof -
  have "calculatePoints BRONZE 22517998136852488 = 2251799813685248" by code_simp
  then show ?thesis using is_double_big calc_big by simp
qed

text \<open>
  C1, amended. For every tier and every finite amount \<open>A\<close> with
  \<open>0 < A < 22517998136852488\<close>,
  \<^verbatim>\<open>calcPointsWithStatus\<close> returns the integer of the specification in exact
  arithmetic: the floor of \<open>A / 10\<close>, times the multiplier of the tier (1, 1, 1.2, 2),
  floored again. In particular the awards for 100 are 10, 10, 12 and 20 for BRONZE,
  SILVER, GOLD and PLATINUM, and the GOLD award for 9 is 0.
\<close>

theorem calcPointsWithStatus_formula:
  "(is_double A \<longrightarrow> 0 < A \<longrightarrow> A < 22517998136852488 \<longrightarrow>
      calcPointsWithStatus (status_key T) (Num A) = Num (of_int (calculatePoints T A)))
   \<and> calcPointsWithStatus (status_key BRONZE) (lit 100) = Num 10
   \<and> calcPointsWithStatus (status_key SILVER) (lit 100) = Num 10
   \<and> calcPointsWithStatus (status_key GOLD) (lit 100) = Num 12
   \<and> calcPointsWithStatus (status_key PLATINUM) (lit 100) = Num 20
   \<and> calcPointsWithStatus (status_key GOLD) (lit 9) = Num 0"
proof -
  have d: "is_double 100" "is_double 9" by (simp_all add: is_double_numeral)
  have "calcPointsWithStatus (status_key T) (Num 100) = Num (of_int (calculatePoints T 100))" for T
    using d(1) by (intro calc_formula) simp_all
  moreover have "calcPointsWithStatus (status_key T) (Num 9) = Num (of_int (calculatePoints T 9))" for T
    using d(2) by (intro calc_formula) simp_all
  ultimately show ?thesis
    using calc_formula[of A T]
    by (simp add: lit_simps calculatePoints_examples del: status_key.simps)
qed

text \<open>
  The theorem of C1 at the amount 250 for GOLD: the award is 30.
\<close>

theorem calcPointsWithStatus_formula_witness:
  "is_double 250 \<and> (0::rat) < 250 \<and> (250::rat) < 22517998136852488
   \<and> calcPointsWithStatus (status_key GOLD) (Num 250) = Num 30"
proof -
  have "calculatePoints GOLD 250 = 30" by code_simp
  then show ?thesis
    using calcPointsWithStatus_formula[of 250 GOLD]
    by (simp add: is_double_numeral del: status_key.simps)
qed

text \<open>
  C5. For every tier and all finite amounts \<open>0 < A1 \<le> A2\<close>, the two awards of
  \<^verbatim>\<open>calcPointsWithStatus\<close> are non-negative integers and the award for \<open>A1\<close> is
  at most the award for \<open>A2\<close>.
\<close>

theorem calcPointsWithStatus_monotone:
  assumes "is_double A1" "is_double A2" "0 < A1" "A1 \<le> A2"
  shows "\<exists>n1 n2 :: int.
           calcPointsWithStatus (status_key T) (Num A1) = Num (of_int n1) \<and>
           calcPointsWithStatus (status_key T) (Num A2) = Num (of_int n2) \<and>
           0 \<le> n1 \<and> n1 \<le> n2"
proof -
  have A2: "0 < A2" using assms(3,4) by simp
  show ?thesis
    using calc_finite[OF assms(1,3), of T] calc_finite[OF assms(2) A2, of T]
      calc_mono[OF assms(3,4), of T] calc_nonneg[OF assms(3), of T]
    by blast
qed

text \<open>
  The theorem of C5 at the amounts 95 and 100 for GOLD, whose awards are 10 and 12.
\<close>

theorem calcPointsWithStatus_monotone_witness:
  "is_double 95 \<and> is_double 100 \<and> (0::rat) < 95 \<and> (95::rat) \<le> 100
   \<and> calcPointsWithStatus (status_key GOLD) (Num 95) = Num 10
   \<and> calcPointsWithStatus (status_key GOLD) (Num 100) = Num 12
   \<and> (\<exists>n1 n2 :: int.
        calcPointsWithStatus (status_key GOLD) (Num 95) = Num (of_int n1) \<and>
        calcPointsWithStatus (status_key GOLD) (Num 100) = Num (of_int n2) \<and>
        0 \<le> n1 \<and> n1 \<le> n2)"
proof -
  have d: "is_double 95" "is_double 100" by (simp_all add: is_double_numeral)
  have "calculatePoints GOLD 95 = 10" "calculatePoints GOLD 100 = 12" by code_simp+
  moreover have
    "calcPointsWithStatus (status_key GOLD) (Num 95) = Num (of_int (calculatePoints GOLD 95))"
    "calcPointsWithStatus (status_key GOLD) (Num 100) = Num (of_int (calculatePoints GOLD 100))"
    using d by (simp_all add: calc_formula del: status_key.simps)
  ultimately show ?thesis
    using calcPointsWithStatus_monotone[of 95 100 GOLD] d by (simp del: status_key.simps)
qed

text \<open>
  C7, as stated, fails. The key \<^verbatim>\<open>PEARL\<close> is no tier and the fallback to 1.0 is
  taken, but at the finite positive amount 22517998136852488 the quotient is rounded
  before \<^verbatim>\<open>Math.floor\<close> sees it, as for C1: the award is 2251799813685249, while the
  floor of a tenth of the amount is 2251799813685248.
\<close>

theorem calcPointsWithStatus_fallback_counterexample:
  "''PEARL'' \<notin> {''PLATINUM'', ''GOLD'', ''SILVER'', ''BRONZE''}
   \<and> is_double 22517998136852488 \<and> (0::rat) < 22517998136852488
   \<and> calcPointsWithStatus ''PEARL'' (Num 22517998136852488) = Num 2251799813685249
   \<and> \<lfloor>22517998136852488 / 10 :: rat\<rfloor> = 2251799813685248"
proof -
  have f: "\<lfloor>11258999068426244 / 5 :: rat\<rfloor> = 2251799813685248" by (rule floor_unique) simp_all
  have "round64 (11258999068426244 / 5) = Num 2251799813685249"
    by (simp add: round64_def r64_big_tenth)
  then have "calcPointsWithStatus ''PEARL'' (Num 22517998136852488) = Num 2251799813685249"
    by (simp add: calc_fallback[OF pearl_unknown] BASE_POINT_DIVISOR_def lit_simps)
  then show ?thesis using is_double_big f by simp
qed

text \<open>
  C7, amended. For a status key that is no tier and every finite amount \<open>A\<close> with
  \<open>0 < A < 22517998136852488\<close>, \<^verbatim>\<open>calcPointsWithStatus\<close> falls back to the
  multiplier 1.0 and returns the floor of \<open>A / 10\<close> in exact arithmetic; it does not
  fail. The statement leaves out the twelve keys that name a member of
  \<^verbatim>\<open>Object.prototype\<close>: it says nothing of the result there.
\<close>

theorem calcPointsWithStatus_fallback:
  assumes "st \<notin> {''PLATINUM'', ''GOLD'', ''SILVER'', ''BRONZE''}" "st \<notin> set Object_prototype"
    and "is_double A" "0 < A" "A < 22517998136852488"
  shows "calcPointsWithStatus st (Num A) = Num (of_int \<lfloor>A / 10\<rfloor>)"
  using assms by (rule calc_fallback_exact)

text \<open>
  The theorem of C7 at the key \<^verbatim>\<open>PEARL\<close> and the amount 105: the award is 10.
\<close>

theorem calcPointsWithStatus_fallback_witness:
  "''PEARL'' \<notin> {''PLATINUM'', ''GOLD'', ''SILVER'', ''BRONZE''} \<and> ''PEARL'' \<notin> set Object_prototype
   \<and> is_double 105 \<and> (0::rat) < 105 \<and> (105::rat) < 22517998136852488
   \<and> calcPointsWithStatus ''PEARL'' (Num 105) = Num 10"
proof -
  have "\<lfloor>21 / 2 :: rat\<rfloor> = 10" by (rule floor_unique) simp_all
  then show ?thesis
    using calcPointsWithStatus_fallback[of "''PEARL''" 105]
    by (simp add: Object_prototype_def is_double_numeral)
qed

section \<open>Facts about the status upgrade\<close>

lemma js_ge_Num: "js_ge (Num a) (Num b) \<longleftrightarrow> b \<le> a"
  by (simp add: js_ge_def)

lemma js_ge_trans_Num: "js_ge p (Num a) \<Longrightarrow> b \<le> a \<Longrightarrow> js_ge p (Num b)"
  by (cases p) (auto simp: js_ge_def)

lemma applyStatusUpgrade_status:
  "status (applyStatusUpgrade now c) =
     (if js_ge (points c) (Num 1000) \<and> status c \<noteq> PLATINUM then PLATINUM
      else if js_ge (points c) (Num 750) \<and> (status c = SILVER \<or> status c = BRONZE) then GOLD
      else if js_ge (points c) (Num 500) \<and> status c = BRONZE then SILVER
      else status c)"
  by (auto simp add: applyStatusUpgrade_def lit_simps)

lemma applyStatusUpgrade_stamp:
  "lastStatusChange (applyStatusUpgrade now c) =
     (if status (applyStatusUpgrade now c) = status c then lastStatusChange c else Some now)"
  by (auto simp add: applyStatusUpgrade_def lit_simps)

lemma applyStatusUpgrade_frame:
  "applyStatusUpgrade now c =
     c\<lparr>status := status (applyStatusUpgrade now c),
       lastStatusChange := lastStatusChange (applyStatusUpgrade now c)\<rparr>"
  by (auto simp add: applyStatusUpgrade_def lit_simps)

section \<open>The Tier Promotion Evaluator\<close>

text \<open>
  C2. For every tier and every non-negative points value, \<^verbatim>\<open>applyStatusUpgrade\<close> applies
  the ordered first-match rules of the evaluator: the status it leaves is the new tier of
  \<open>evaluatePromotion\<close>, and it stamps \<open>lastStatusChange\<close> with the clock exactly when
  \<open>evaluatePromotion\<close> flags a change. In particular BRONZE with 499 points stays as it
  is, BRONZE with 500 becomes SILVER, SILVER with 750 becomes GOLD, GOLD with 1000 becomes
  PLATINUM, and GOLD with 800 stays as it is.
\<close>

theorem applyStatusUpgrade_first_match:
  "(points c = Num p \<longrightarrow> 0 \<le> p \<longrightarrow>
      status (applyStatusUpgrade now c) = fst (evaluatePromotion (status c) p) \<and>
      lastStatusChange (applyStatusUpgrade now c) =
        (if snd (evaluatePromotion (status c) p) then Some now else lastStatusChange c))
   \<and> applyStatusUpgrade now (c\<lparr>status := BRONZE, points := lit 499\<rparr>)
       = c\<lparr>status := BRONZE, points := lit 499\<rparr>
   \<and> applyStatusUpgrade now (c\<lparr>status := BRONZE, points := lit 500\<rparr>)
       = c\<lparr>status := SILVER, points := lit 500, lastStatusChange := Some now\<rparr>
   \<and> applyStatusUpgrade now (c\<lparr>status := SILVER, points := lit 750\<rparr>)
       = c\<lparr>status := GOLD, points := lit 750, lastStatusChange := Some now\<rparr>
   \<and> applyStatusUpgrade now (c\<lparr>status := GOLD, points := lit 1000\<rparr>)
       = c\<lparr>status := PLATINUM, points := lit 1000, lastStatusChange := Some now\<rparr>
   \<and> applyStatusUpgrade now (c\<lparr>status := GOLD, points := lit 800\<rparr>)
       = c\<lparr>status := GOLD, points := lit 800\<rparr>"
  by (auto simp add: applyStatusUpgrade_def lit_simps evaluatePromotion_def js_ge_Num)

text \<open>
  The theorem of C2 at the first customer of the store set to BRONZE with 500 points: the
  call promotes to SILVER and stamps the clock.
\<close>

theorem applyStatusUpgrade_first_match_witness:
  "points ((customers ! 0)\<lparr>status := BRONZE, points := Num 500\<rparr>) = Num 500 \<and> (0::rat) \<le> 500
   \<and> status (applyStatusUpgrade ''2024-05-01T10:00:00.000Z''
         ((customers ! 0)\<lparr>status := BRONZE, points := Num 500\<rparr>)) = SILVER
   \<and> lastStatusChange (applyStatusUpgrade ''2024-05-01T10:00:00.000Z''
         ((customers ! 0)\<lparr>status := BRONZE, points := Num 500\<rparr>))
       = Some ''2024-05-01T10:00:00.000Z''"
  using applyStatusUpgrade_first_match
    [of "(customers ! 0)\<lparr>status := BRONZE, points := Num 500\<rparr>" 500
        "''2024-05-01T10:00:00.000Z''"]
  by (simp add: evaluatePromotion_def)

text \<open>
  C3. The status \<^verbatim>\<open>applyStatusUpgrade\<close> leaves is never below the status it found, in
  the order BRONZE, SILVER, GOLD, PLATINUM, whatever the points are.
\<close>

theorem applyStatusUpgrade_no_demotion:
  "privilege (status c) \<le> privilege (status (applyStatusUpgrade now c))"
  by (cases "status c") (simp_all add: applyStatusUpgrade_status)

text \<open>
  C4. \<^verbatim>\<open>applyStatusUpgrade\<close> is idempotent: a second call on the customer the first call
  left, at any later reading of the clock, changes nothing (neither the status nor the
  stamp).
\<close>

theorem applyStatusUpgrade_idempotent:
  "applyStatusUpgrade now' (applyStatusUpgrade now c) = applyStatusUpgrade now c"
proof -
  have 1: "js_ge (points c) (Num 1000) \<Longrightarrow> js_ge (points c) (Num 750)"
    by (erule js_ge_trans_Num) simp
  have 2: "js_ge (points c) (Num 750) \<Longrightarrow> js_ge (points c) (Num 500)"
    by (erule js_ge_trans_Num) simp
  show ?thesis
    using 1 2 by (cases "status c") (auto simp add: applyStatusUpgrade_def lit_simps)
qed

text \<open>
  C10. \<^verbatim>\<open>applyStatusUpgrade\<close> changes at most the fields \<open>status\<close> and
  \<open>lastStatusChange\<close> of the customer, and it stamps \<open>lastStatusChange\<close> exactly when
  the status changes: a changed status comes with the stamp of the clock, and an unchanged
  status with the old \<open>lastStatusChange\<close>.
\<close>

theorem applyStatusUpgrade_frame_and_stamp:
  "applyStatusUpgrade now c =
     c\<lparr>status := status (applyStatusUpgrade now c),
       lastStatusChange := lastStatusChange (applyStatusUpgrade now c)\<rparr>
   \<and> (status (applyStatusUpgrade now c) \<noteq> status c \<longrightarrow>
        lastStatusChange (applyStatusUpgrade now c) = Some now)
   \<and> (status (applyStatusUpgrade now c) = status c \<longrightarrow>
        lastStatusChange (applyStatusUpgrade now c) = lastStatusChange c)"
  using applyStatusUpgrade_frame[of now c] by (simp add: applyStatusUpgrade_stamp)

text \<open>
  The theorem of C10 at two customers: the first of the store with 1200 points, whose
  status changes and is stamped, and the second of the store (GOLD, 850 points), whose
  status and absent stamp stay.
\<close>

theorem applyStatusUpgrade_frame_and_stamp_witness:
  "status (applyStatusUpgrade ''2024-05-01T10:00:00.000Z''
            ((customers ! 0)\<lparr>points := Num 1200\<rparr>))
     \<noteq> status ((customers ! 0)\<lparr>points := Num 1200\<rparr>)
   \<and> lastStatusChange (applyStatusUpgrade ''2024-05-01T10:00:00.000Z''
            ((customers ! 0)\<lparr>points := Num 1200\<rparr>))
     = Some ''2024-05-01T10:00:00.000Z''
   \<and> status (applyStatusUpgrade ''2024-05-01T10:00:00.000Z'' (customers ! 1))
     = status (customers ! 1)
   \<and> lastStatusChange (applyStatusUpgrade ''2024-05-01T10:00:00.000Z'' (customers ! 1)) = None"
  using applyStatusUpgrade_frame_and_stamp
      [of "''2024-05-01T10:00:00.000Z''" "(customers ! 0)\<lparr>points := Num 1200\<rparr>"]
    applyStatusUpgrade_frame_and_stamp [of "''2024-05-01T10:00:00.000Z''" "customers ! 1"]
  by (simp add: applyStatusUpgrade_status customers_def lit_simps js_ge_Num)

text \<open>
  C8, as stated, fails: the result of \<^verbatim>\<open>applyStatusUpgrade\<close> depends on the clock. The
  same customer (the first of the store, with 1200 points) upgraded at two readings of
  the clock gives two different records.
\<close>

theorem applyStatusUpgrade_clock_counterexample:
  "applyStatusUpgrade ''2024-05-01T10:00:00.000Z'' ((customers ! 0)\<lparr>points := Num 1200\<rparr>)
   \<noteq> applyStatusUpgrade ''2024-05-02T10:00:00.000Z'' ((customers ! 0)\<lparr>points := Num 1200\<rparr>)"
  by (simp add: applyStatusUpgrade_def customers_def lit_simps js_ge_Num)

text \<open>
  C8, amended. The status \<^verbatim>\<open>applyStatusUpgrade\<close> leaves is a function of the status and
  the points it found, whatever the clock and the other fields are; a call that does not
  change the status leaves the customer as it was, whatever the clock is; a call that
  changes the status stamps \<open>lastStatusChange\<close> with the clock it read itself.
\<close>

theorem applyStatusUpgrade_deterministic_status:
  "(status c1 = status c2 \<longrightarrow> points c1 = points c2 \<longrightarrow>
      status (applyStatusUpgrade now1 c1) = status (applyStatusUpgrade now2 c2))
   \<and> (status (applyStatusUpgrade now1 c1) = status c1 \<longrightarrow> applyStatusUpgrade now1 c1 = c1)
   \<and> (status (applyStatusUpgrade now1 c1) \<noteq> status c1 \<longrightarrow>
        lastStatusChange (applyStatusUpgrade now1 c1) = Some now1)"
  using applyStatusUpgrade_frame[of now1 c1]
  by (auto simp add: applyStatusUpgrade_status applyStatusUpgrade_stamp)

text \<open>
  The theorem of C8 at the two customers of the store, the second given the status and
  the points of the first (SILVER, 450 points, nothing changes), and at the first with
  1200 points (promoted and stamped).
\<close>

theorem applyStatusUpgrade_deterministic_status_witness:
  "status (customers ! 0) = status ((customers ! 1)\<lparr>status := SILVER, points := lit 450\<rparr>)
   \<and> points (customers ! 0) = points ((customers ! 1)\<lparr>status := SILVER, points := lit 450\<rparr>)
   \<and> status (applyStatusUpgrade ''2024-05-01T10:00:00.000Z'' (customers ! 0))
       = status (applyStatusUpgrade ''2024-05-02T10:00:00.000Z''
           ((customers ! 1)\<lparr>status := SILVER, points := lit 450\<rparr>))
   \<and> status (applyStatusUpgrade ''2024-05-01T10:00:00.000Z'' (customers ! 0))
       = status (customers ! 0)
   \<and> applyStatusUpgrade ''2024-05-01T10:00:00.000Z'' (customers ! 0) = customers ! 0
   \<and> status (applyStatusUpgrade ''2024-05-01T10:00:00.000Z''
         ((customers ! 0)\<lparr>points := Num 1200\<rparr>)) \<noteq> status ((customers ! 0)\<lparr>points := Num 1200\<rparr>)
   \<and> lastStatusChange (applyStatusUpgrade ''2024-05-01T10:00:00.000Z''
         ((customers ! 0)\<lparr>points := Num 1200\<rparr>)) = Some ''2024-05-01T10:00:00.000Z''"
  using applyStatusUpgrade_deterministic_status
      [of "customers ! 0" "(customers ! 1)\<lparr>status := SILVER, points := lit 450\<rparr>"
          "''2024-05-01T10:00:00.000Z''" "''2024-05-02T10:00:00.000Z''"]
    applyStatusUpgrade_deterministic_status
      [of "(customers ! 0)\<lparr>points := Num 1200\<rparr>" "(customers ! 0)\<lparr>points := Num 1200\<rparr>"
          "''2024-05-01T10:00:00.000Z''" "''2024-05-01T10:00:00.000Z''"]
  by (simp add: applyStatusUpgrade_status customers_def lit_simps js_ge_Num)

section \<open>Purchase requests\<close>

text \<open>The reference \<^verbatim>\<open>find\<close> gives is inside the array and is the first match.\<close>

lemma findRef_Some:
  "findRef p xs = Some i \<Longrightarrow> i < length xs \<and> p (xs ! i) \<and> (\<forall>j<i. \<not> p (xs ! j))"
proof (induction xs arbitrary: i)
  case Nil
  then show ?case by simp
next
  case (Cons x xs)
  show ?case
  proof (cases "p x")
    case True
    then show ?thesis using Cons.prems by simp
  next
    case False
    then obtain i' where i': "findRef p xs = Some i'" "i = Suc i'" using Cons.prems by auto
    from Cons.IH[OF i'(1)] False show ?thesis by (auto simp add: i'(2) less_Suc_eq_0_disj)
  qed
qed

lemma findRef_None: "findRef p xs = None \<longleftrightarrow> (\<forall>x \<in> set xs. \<not> p x)"
  by (induction xs) auto

lemma invalidAmount_iff: "\<not> isFinite amount \<or> js_le amount (lit 0) \<longleftrightarrow> invalidAmount amount"
  by (cases amount) (simp_all add: lit_simps)

lemma purchase_404:
  "findRef (\<lambda>c. strict_eq (cid c) customerId) cs = None \<Longrightarrow>
   purchase cs customerId amount now1 now2 = (Send 404 ''Customer not found'', cs)"
  by (simp add: purchase_def)

lemma purchase_400:
  "findRef (\<lambda>c. strict_eq (cid c) customerId) cs = Some i \<Longrightarrow> invalidAmount amount \<Longrightarrow>
   purchase cs customerId amount now1 now2 =
     (Send 400 ''Invalid 'amount' provided. Must be a positive number.'', cs)"
  using invalidAmount_iff[of amount] by (simp add: purchase_def)

lemma purchase_200:
  "findRef (\<lambda>c. strict_eq (cid c) customerId) cs = Some i \<Longrightarrow> \<not> invalidAmount amount \<Longrightarrow>
   \<exists>c a m. fst (purchase cs customerId amount now1 now2) = Json c a m"
  using invalidAmount_iff[of amount] by (simp add: purchase_def Let_def)

lemma customers_find_99: "findRef (\<lambda>c. strict_eq (cid c) (Num 99)) customers = None"
  by (simp add: customers_def strict_eq_def lit_simps)

lemma customers_find_1: "findRef (\<lambda>c. strict_eq (cid c) (Num 1)) customers = Some 0"
  by (simp add: customers_def strict_eq_def lit_simps)

text \<open>
  An accepted request, for comparison: customer 1 (SILVER, 450 points) buys for 300, is
  awarded 30 points and stays SILVER with 480.
\<close>

lemma purchase_scenario:
  "purchase customers (lit 1) (lit 300) now1 now2 =
     (Json ((customers ! 0)\<lparr>points := Num 480, lastPurchaseDate := now1\<rparr>) (Num 30) (Number (Num 1)),
      customers[0 := (customers ! 0)\<lparr>points := Num 480, lastPurchaseDate := now1\<rparr>])"
proof -
  have a: "calcPointsWithStatus (status_key SILVER) (Num 300) = Num (of_int (calculatePoints SILVER 300))"
    by (rule calc_formula) (simp_all add: is_double_numeral)
  have "calculatePoints SILVER 300 = 30" by code_simp
  then have award: "calcPointsWithStatus ''SILVER'' (Num 300) = Num 30" using a by simp
  have add: "round64 480 = Num 480" using round64_of_int[of 480] by simp
  show ?thesis
    by (simp add: purchase_def customers_find_1 lit_simps Let_def customers_def award add
        applyStatusUpgrade_def js_ge_Num get_property_def STATUS_MULTIPLIER_def strict_eq_def)
qed

text \<open>
  C9. A purchase request that is rejected, because no stored customer has the id or
  because the amount is non-finite, zero or negative, leaves the store as it was (no
  field of any customer changes) and is answered with a status code and a text.
\<close>

theorem purchase_rejected_store_unchanged:
  "findRef (\<lambda>c. strict_eq (cid c) customerId) cs = None \<or> invalidAmount amount \<Longrightarrow>
   snd (purchase cs customerId amount now1 now2) = cs \<and>
   (\<exists>code text. fst (purchase cs customerId amount now1 now2) = Send code text)"
  by (cases "findRef (\<lambda>c. strict_eq (cid c) customerId) cs")
     (auto simp add: purchase_404 purchase_400)

text \<open>
  The theorem of C9 on the store as the module creates it: a request for customer 99,
  whom the store does not hold, and a request for customer 1 with the amount NaN.
\<close>

theorem purchase_rejected_store_unchanged_witness:
  "findRef (\<lambda>c. strict_eq (cid c) (Num 99)) customers = None
   \<and> snd (purchase customers (Num 99) (Num 100) ''2024-05-01T10:00:00.000Z'' ''2024-05-01T10:00:00.001Z'') = customers
   \<and> invalidAmount NaN
   \<and> snd (purchase customers (Num 1) NaN ''2024-05-01T10:00:00.000Z'' ''2024-05-01T10:00:00.001Z'') = customers"
  using purchase_rejected_store_unchanged
      [of "Num 99" customers "Num 100" "''2024-05-01T10:00:00.000Z''"
          "''2024-05-01T10:00:00.001Z''"]
    purchase_rejected_store_unchanged
      [of "Num 1" customers NaN "''2024-05-01T10:00:00.000Z''" "''2024-05-01T10:00:00.001Z''"]
  by (simp add: customers_find_99)

text \<open>
  C6, as stated, fails: with the amount -5 and the id 99, which no customer of the store
  has, the route answers 404 \<^verbatim>\<open>Customer not found\<close>, not the 400 of an invalid
  amount: the customer is looked up before the amount is read.
\<close>

theorem purchase_invalid_amount_counterexample:
  "invalidAmount (Num (- 5)) \<and>
   fst (purchase customers (Num 99) (Num (- 5)) ''2024-05-01T10:00:00.000Z'' ''2024-05-01T10:00:00.001Z'')
     = Send 404 ''Customer not found''"
  by (simp add: purchase_404 customers_find_99)

text \<open>
  C6, amended. For a request whose id a stored customer has, the route answers 400
  (invalid amount) exactly when the amount is non-finite, zero or negative; for an id no
  stored customer has it answers 404 \<^verbatim>\<open>Customer not found\<close>, whatever the amount. For
  every non-finite, zero or negative amount the store is left as it was and the answer is
  that 400 or that 404; for every finite strictly positive amount the answer is not the
  400.
\<close>

theorem purchase_invalid_amount:
  "(findRef (\<lambda>c. strict_eq (cid c) customerId) cs \<noteq> None \<longrightarrow>
      (fst (purchase cs customerId amount now1 now2)
         = Send 400 ''Invalid 'amount' provided. Must be a positive number.''
       \<longleftrightarrow> invalidAmount amount))
   \<and> (findRef (\<lambda>c. strict_eq (cid c) customerId) cs = None \<longrightarrow>
        fst (purchase cs customerId amount now1 now2) = Send 404 ''Customer not found'')
   \<and> (invalidAmount amount \<longrightarrow>
        snd (purchase cs customerId amount now1 now2) = cs \<and>
        (fst (purchase cs customerId amount now1 now2)
           = Send 400 ''Invalid 'amount' provided. Must be a positive number.''
         \<or> fst (purchase cs customerId amount now1 now2) = Send 404 ''Customer not found''))
   \<and> (\<not> invalidAmount amount \<longrightarrow>
        (\<forall>text. fst (purchase cs customerId amount now1 now2) \<noteq> Send 400 text))"
proof (cases "findRef (\<lambda>c. strict_eq (cid c) customerId) cs")
  case None
  then show ?thesis by (simp add: purchase_404)
next
  case (Some i)
  show ?thesis
  proof (cases "invalidAmount amount")
    case True
    then show ?thesis using Some by (simp add: purchase_400)
  next
    case False
    from purchase_200[OF Some False, of now1 now2] show ?thesis
      using Some False by auto
  qed
qed

text \<open>
  The theorem of C6 on the store as the module creates it: for customer 1 the amount 0
  is answered with the 400 and leaves the store, and the amount 100 is not answered with
  it; for the id 99, which the store does not hold, the amount 0 is answered with the 404.
\<close>

theorem purchase_invalid_amount_witness:
  "findRef (\<lambda>c. strict_eq (cid c) (Num 1)) customers \<noteq> None
   \<and> invalidAmount (Num 0)
   \<and> purchase customers (Num 1) (Num 0) ''2024-05-01T10:00:00.000Z'' ''2024-05-01T10:00:00.001Z''
       = (Send 400 ''Invalid 'amount' provided. Must be a positive number.'', customers)
   \<and> \<not> invalidAmount (Num 100)
   \<and> fst (purchase customers (Num 1) (Num 100) ''2024-05-01T10:00:00.000Z'' ''2024-05-01T10:00:00.001Z'')
       \<noteq> Send 400 ''Invalid 'amount' provided. Must be a positive number.''
   \<and> findRef (\<lambda>c. strict_eq (cid c) (Num 99)) customers = None
   \<and> purchase customers (Num 99) (Num 0) ''2024-05-01T10:00:00.000Z'' ''2024-05-01T10:00:00.001Z''
       = (Send 404 ''Customer not found'', customers)"
  using purchase_invalid_amount
      [of "Num 1" customers "Num 0" "''2024-05-01T10:00:00.000Z''"
          "''2024-05-01T10:00:00.001Z''"]
    purchase_invalid_amount
      [of "Num 1" customers "Num 100" "''2024-05-01T10:00:00.000Z''"
          "''2024-05-01T10:00:00.001Z''"]
    purchase_invalid_amount
      [of "Num 99" customers "Num 0" "''2024-05-01T10:00:00.000Z''"
          "''2024-05-01T10:00:00.001Z''"]
  by (simp add: customers_find_1 customers_find_99 prod_eq_iff)

end
